theory Spec2Isabelle
  imports Complex_Main "HOL-Library.Word" "HOL-Library.Log_Nat"
begin

unbundle bit_operations_syntax

section \<open>Floating-point values\<close>

text \<open>
  A C++ \<^verbatim>\<open>float\<close> is a real number, an infinity or NaN. Two arithmetics are defined on
  these values.

  The exact operations \<open>fadd\<close>, \<open>fsub\<close>, \<open>fmul\<close> and \<open>fdiv\<close> give the real result of an
  operation on numbers, without the rounding of binary32. They carry what the control
  flow can see of IEEE 754: a division by zero gives an infinity (NaN for 0/0) and
  execution goes on, an infinity absorbs every number added to it, and every comparison
  with NaN is false. Zero has no sign (a divisor that is zero counts as +0). The
  oscillators, the clipper and the reverb are written with the exact operations, and a
  literal such as \<^verbatim>\<open>.9f\<close> is there the decimal it is written as; what is proved of these
  routines is a range or a bound.

  The rounded operations \<open>add32\<close>, \<open>sub32\<close>, \<open>mul32\<close> and \<open>div32\<close> give what binary32
  gives: the exact result rounded to the nearest number of the format. The automation
  interpreter, the envelope and the WAV writer are written with them, since the values
  they return depend on the rounding.
\<close>

datatype float = Fin real | PInf | NInf | NaN

fun fneg :: "float \<Rightarrow> float" where
  "fneg (Fin x) = Fin (- x)"
| "fneg PInf = NInf"
| "fneg NInf = PInf"
| "fneg NaN = NaN"

fun fadd :: "float \<Rightarrow> float \<Rightarrow> float" where
  "fadd (Fin x) (Fin y) = Fin (x + y)"
| "fadd NaN _ = NaN"
| "fadd _ NaN = NaN"
| "fadd PInf NInf = NaN"
| "fadd NInf PInf = NaN"
| "fadd PInf _ = PInf"
| "fadd _ PInf = PInf"
| "fadd NInf _ = NInf"
| "fadd _ NInf = NInf"

definition fsub :: "float \<Rightarrow> float \<Rightarrow> float" where
  "fsub a b = fadd a (fneg b)"

text \<open>The infinity of the sign of a non-zero number times \<open>+\<infinity>\<close>; NaN for zero.\<close>

definition signed_inf :: "real \<Rightarrow> float" where
  "signed_inf x = (if 0 < x then PInf else if x < 0 then NInf else NaN)"

fun fmul :: "float \<Rightarrow> float \<Rightarrow> float" where
  "fmul (Fin x) (Fin y) = Fin (x * y)"
| "fmul NaN _ = NaN"
| "fmul _ NaN = NaN"
| "fmul (Fin x) PInf = signed_inf x"
| "fmul (Fin x) NInf = signed_inf (- x)"
| "fmul PInf (Fin y) = signed_inf y"
| "fmul NInf (Fin y) = signed_inf (- y)"
| "fmul PInf PInf = PInf"
| "fmul NInf NInf = PInf"
| "fmul PInf NInf = NInf"
| "fmul NInf PInf = NInf"

fun fdiv :: "float \<Rightarrow> float \<Rightarrow> float" where
  "fdiv (Fin x) (Fin y) = (if y = 0 then signed_inf x else Fin (x / y))"
| "fdiv NaN _ = NaN"
| "fdiv _ NaN = NaN"
| "fdiv (Fin x) PInf = Fin 0"
| "fdiv (Fin x) NInf = Fin 0"
| "fdiv PInf (Fin y) = (if y < 0 then NInf else PInf)"
| "fdiv NInf (Fin y) = (if y < 0 then PInf else NInf)"
| "fdiv PInf PInf = NaN"
| "fdiv PInf NInf = NaN"
| "fdiv NInf PInf = NaN"
| "fdiv NInf NInf = NaN"

text \<open>The comparisons \<^verbatim>\<open><\<close> and \<^verbatim>\<open><=\<close>; \<^verbatim>\<open>a > b\<close> is \<open>flt b a\<close> and \<^verbatim>\<open>a >= b\<close> is \<open>fle b a\<close>.\<close>

fun flt :: "float \<Rightarrow> float \<Rightarrow> bool" where
  "flt (Fin x) (Fin y) = (x < y)"
| "flt NaN _ = False"
| "flt _ NaN = False"
| "flt _ NInf = False"
| "flt PInf _ = False"
| "flt NInf _ = True"
| "flt _ PInf = True"

fun fle :: "float \<Rightarrow> float \<Rightarrow> bool" where
  "fle (Fin x) (Fin y) = (x \<le> y)"
| "fle NaN _ = False"
| "fle _ NaN = False"
| "fle NInf _ = True"
| "fle _ PInf = True"
| "fle _ NInf = False"
| "fle PInf _ = False"

definition fgt :: "float \<Rightarrow> float \<Rightarrow> bool" where
  "fgt a b = flt b a"

definition fge :: "float \<Rightarrow> float \<Rightarrow> bool" where
  "fge a b = fle b a"

subsection \<open>Rounding to binary32\<close>

text \<open>
  A binary format has \<open>p\<close> bits of significand, and its numbers are the integer multiples
  of its least positive number \<open>1 / 2 ^ q\<close> that need no more than \<open>p\<close> bits: \<open>p = 24\<close> and
  \<open>q = 149\<close> for binary32. Around \<open>x\<close> the numbers of the format are \<open>ulp p q x\<close> apart:
  \<open>1 / 2 ^ q\<close> as long as \<open>x * 2 ^ q\<close> has at most \<open>p\<close> bits before the point (zero, the
  subnormal numbers and the first binade), and twice as much for each further bit
  (\<open>shift\<close>). \<open>rnd\<close> rounds to the nearest multiple of this spacing, and to the even
  one when two are equally near (\<open>round_even\<close>): round to nearest, ties to even, the
  rounding mode the program runs in.
\<close>

definition round_even :: "real \<Rightarrow> int" where
  "round_even x =
     (let n = \<lfloor>x\<rfloor>; r = x - of_int n
      in if r < 1 / 2 then n else if 1 / 2 < r then n + 1 else if even n then n else n + 1)"

definition shift :: "nat \<Rightarrow> nat \<Rightarrow> real \<Rightarrow> nat" where
  "shift p q x = nat (bitlen \<lfloor>\<bar>x\<bar> * 2 ^ q\<rfloor> - int p)"

definition ulp :: "nat \<Rightarrow> nat \<Rightarrow> real \<Rightarrow> real" where
  "ulp p q x = 2 ^ shift p q x / 2 ^ q"

definition rnd :: "nat \<Rightarrow> nat \<Rightarrow> real \<Rightarrow> real" where
  "rnd p q x = of_int (round_even (x / ulp p q x)) * ulp p q x"

text \<open>
  The \<^verbatim>\<open>float\<close> that a real result becomes: rounded, and an infinity when the rounded
  number reaches \<open>2 ^ 128\<close>. \<open>round_result\<close> rounds the number that an exact operation
  gives and leaves an infinity or NaN as it is. Each operation is rounded on its own (no
  fused multiply-add, no intermediate result kept in a wider format).
\<close>

definition round32 :: "real \<Rightarrow> float" where
  "round32 x =
     (let y = rnd 24 149 x
      in if 2 ^ 128 \<le> y then PInf else if y \<le> - (2 ^ 128) then NInf else Fin y)"

fun round_result :: "float \<Rightarrow> float" where
  "round_result (Fin x) = round32 x"
| "round_result PInf = PInf"
| "round_result NInf = NInf"
| "round_result NaN = NaN"

definition add32 :: "float \<Rightarrow> float \<Rightarrow> float" where
  "add32 a b = round_result (fadd a b)"

definition sub32 :: "float \<Rightarrow> float \<Rightarrow> float" where
  "sub32 a b = round_result (fsub a b)"

definition mul32 :: "float \<Rightarrow> float \<Rightarrow> float" where
  "mul32 a b = round_result (fmul a b)"

definition div32 :: "float \<Rightarrow> float \<Rightarrow> float" where
  "div32 a b = round_result (fdiv a b)"

text \<open>
  \<^verbatim>\<open>std::pow(b, e)\<close> for a base \<open>b\<close> that is a positive number, which is how the program
  calls it (\<^verbatim>\<open>std::pow(0.01f, ...)\<close>).
\<close>

fun fpow :: "real \<Rightarrow> float \<Rightarrow> float" where
  "fpow b (Fin e) = Fin (b powr e)"
| "fpow b PInf = (if b < 1 then Fin 0 else if b = 1 then Fin 1 else PInf)"
| "fpow b NInf = (if b < 1 then PInf else if b = 1 then Fin 1 else Fin 0)"
| "fpow b NaN = (if b = 1 then Fin 1 else NaN)"

text \<open>
  \<^verbatim>\<open>std::pow\<close> on two \<^verbatim>\<open>float\<close> arguments returns a \<^verbatim>\<open>float\<close>: the power, rounded. (A
  library's result may differ from the correctly rounded one in the last bit; the
  theorems below use a power only at an infinite exponent, where it is exact.)
\<close>

definition pow32 :: "real \<Rightarrow> float \<Rightarrow> float" where
  "pow32 b e = round_result (fpow b e)"

text \<open>
  The conversion of a \<^verbatim>\<open>float\<close> to a signed integer type of \<open>w\<close> bits drops the fraction
  (towards zero). Its behaviour is undefined when the result does not fit the type, and
  for an infinity or NaN: \<open>None\<close>.
\<close>

definition trunc :: "real \<Rightarrow> int" where
  "trunc x = (if 0 \<le> x then \<lfloor>x\<rfloor> else \<lceil>x\<rceil>)"

fun float_to_int :: "nat \<Rightarrow> float \<Rightarrow> int option" where
  "float_to_int w (Fin x) =
     (if - (2 ^ (w - 1)) \<le> trunc x \<and> trunc x < 2 ^ (w - 1) then Some (trunc x) else None)"
| "float_to_int w _ = None"

text \<open>
  The conversion of an \<^verbatim>\<open>int\<close> to \<^verbatim>\<open>float\<close> rounds: an \<^verbatim>\<open>int\<close> of more than 24 bits need
  not be a number of binary32.
\<close>

definition int_to_float :: "int \<Rightarrow> float" where
  "int_to_float i = round32 (real_of_int i)"

text \<open>\<^verbatim>\<open>constexpr float DT = 1.f / 44100.f;\<close>\<close>

definition DT :: float where
  "DT = fdiv (Fin 1) (Fin 44100)"

text \<open>
  \<open>DT\<close> above is the quotient as a real number, for the routines written in exact
  arithmetic. In binary32 the quotient is rounded: the constant is \<open>6233059 / 2 ^ 38\<close>, a
  little less than \<open>1 / 44100\<close>.
\<close>

definition DT32 :: float where
  "DT32 = div32 (Fin 1) (Fin 44100)"

text \<open>
  \<^verbatim>\<open>struct Sample { float left; float right; }\<close> with its constructors and operators.
\<close>

record Sample =
  Sample_left :: float
  Sample_right :: float

definition Sample0 :: Sample where
  "Sample0 = \<lparr>Sample_left = Fin 0, Sample_right = Fin 0\<rparr>"

definition Sample1 :: "float \<Rightarrow> Sample" where
  "Sample1 sample = \<lparr>Sample_left = sample, Sample_right = sample\<rparr>"



section \<open>Oscillators and the clipper\<close>

text \<open>
  \<^verbatim>\<open>Saw::process\<close> and \<^verbatim>\<open>Square::process\<close> advance a phase \<^verbatim>\<open>value\<close>, 0 at first.
  A processing routine takes its arguments, then the object's state, and gives back
  the result and the new state.
\<close>

record Saw =
  Saw_value :: float

definition Saw_init :: Saw where
  "Saw_init = \<lparr>Saw_value = Fin 0\<rparr>"

definition Saw_process :: "float \<Rightarrow> Saw \<Rightarrow> float \<times> Saw" where
  "Saw_process frequency s =
     (let v = fadd (Saw_value s) (fmul frequency (fmul (Fin 2) DT));
          v' = (if fgt v (Fin 1) then fsub v (Fin 2) else v)
      in (v', \<lparr>Saw_value = v'\<rparr>))"

record Square =
  Square_value :: float

definition Square_init :: Square where
  "Square_init = \<lparr>Square_value = Fin 0\<rparr>"

definition Square_process :: "float \<Rightarrow> Square \<Rightarrow> float \<times> Square" where
  "Square_process frequency s =
     (let v = fadd (Square_value s) (fmul frequency DT);
          v' = (if fgt v (Fin 1) then fsub v (Fin 1) else v)
      in (if fgt v' (Fin (5 / 10)) then Fin 1 else Fin (- 1), \<lparr>Square_value = v'\<rparr>))"

text \<open>A run of \<^verbatim>\<open>process\<close> calls, one per frequency of the list: the outputs in order.\<close>

fun Saw_run :: "float list \<Rightarrow> Saw \<Rightarrow> float list" where
  "Saw_run [] s = []"
| "Saw_run (f # fs) s = (case Saw_process f s of (v, s') \<Rightarrow> v # Saw_run fs s')"

fun Square_run :: "float list \<Rightarrow> Square \<Rightarrow> float list" where
  "Square_run [] s = []"
| "Square_run (f # fs) s = (case Square_process f s of (v, s') \<Rightarrow> v # Square_run fs s')"

text \<open>The range \<open>[-1, 1]\<close> of an oscillator's output.\<close>

definition in_unit :: "float \<Rightarrow> bool" where
  "in_unit x = (fle (Fin (- 1)) x \<and> fle x (Fin 1))"

definition Clip_process :: "float \<Rightarrow> float" where
  "Clip_process input =
     (if fgt input (Fin (9 / 10)) then Fin (9 / 10)
      else if flt input (Fin (- (9 / 10))) then Fin (- (9 / 10))
      else input)"


section \<open>Freeverb\<close>
















text \<open>
  Bounds on the state of the reverb, for the stability of the network: a number of
  absolute value at most \<open>M\<close>; a comb filter whose buffer and low-pass state are bounded
  by \<open>M\<close>; an all-pass filter fed inputs bounded by \<open>J\<close>, whose buffer is then bounded by
  \<open>2 * J\<close>; a channel whose combs are bounded by \<open>M\<close>, so that their sum, which feeds the
  first all-pass, is bounded by \<open>8 * M\<close>, and each all-pass triples the bound of its input.
\<close>

definition bounded_by :: "real \<Rightarrow> float \<Rightarrow> bool" where
  "bounded_by M x = (fle (Fin (- M)) x \<and> fle x (Fin M))"









section \<open>The automation interpreter\<close>

text \<open>
  The script is a C string; \<^verbatim>\<open>cursor\<close> points into it. The model keeps the characters from
  the cursor on: \<open>deref\<close> is \<^verbatim>\<open>*cursor\<close> (the terminating NUL when nothing is left) and
  \<^verbatim>\<open>++cursor\<close> is \<open>tl\<close>. The cursor only ever steps over a character it has just
  matched, never over the NUL.
\<close>

definition NUL :: char where
  "NUL = CHR 0x00"

definition deref :: "string \<Rightarrow> char" where
  "deref cs = (case cs of [] \<Rightarrow> NUL | c # _ \<Rightarrow> c)"

definition is_digit :: "char \<Rightarrow> bool" where
  "is_digit c = (of_char (CHR ''0'') \<le> (of_char c :: nat) \<and> (of_char c :: nat) \<le> of_char (CHR ''9''))"

text \<open>\<^verbatim>\<open>*cursor - '0'\<close>, an \<^verbatim>\<open>int\<close>, converted to \<^verbatim>\<open>float\<close>.\<close>

definition digit_value :: "char \<Rightarrow> float" where
  "digit_value c = int_to_float (of_char c - of_char (CHR ''0''))"

text \<open>
  The two \<^verbatim>\<open>while\<close> loops of \<^verbatim>\<open>parse_number\<close>: the integer part and the fraction. The
  arithmetic is that of \<^verbatim>\<open>float\<close>, rounded at each operation; the fraction starts from the
  literal \<^verbatim>\<open>.1f\<close>.
\<close>

fun parse_digits :: "float \<Rightarrow> string \<Rightarrow> float \<times> string" where
  "parse_digits number [] = (number, [])"
| "parse_digits number (c # cs) =
     (if is_digit c
      then parse_digits (add32 (mul32 number (Fin 10)) (digit_value c)) cs
      else (number, c # cs))"

fun parse_fraction :: "float \<Rightarrow> float \<Rightarrow> string \<Rightarrow> float \<times> string" where
  "parse_fraction number factor [] = (number, [])"
| "parse_fraction number factor (c # cs) =
     (if is_digit c
      then parse_fraction (add32 number (mul32 (digit_value c) factor)) (div32 factor (Fin 10)) cs
      else (number, c # cs))"

definition parse_number :: "string \<Rightarrow> float \<times> string" where
  "parse_number cs =
     (case (if deref cs = CHR ''-'' then (Fin (- 1), tl cs) else (Fin 1, cs)) of
        (sign, cs1) \<Rightarrow>
          (case parse_digits (Fin 0) cs1 of
             (number, cs2) \<Rightarrow>
               (case (if deref cs2 = CHR ''.''
                      then parse_fraction number (round32 (1 / 10)) (tl cs2)
                      else (number, cs2)) of
                  (number', cs3) \<Rightarrow> (mul32 number' sign, cs3))))"

fun skip_space :: "string \<Rightarrow> string" where
  "skip_space [] = []"
| "skip_space (c # cs) = (if c = CHR '' '' then skip_space cs else c # cs)"

text \<open>
  \<^verbatim>\<open>--t\<close> on a 32-bit \<^verbatim>\<open>int\<close>. At the least \<^verbatim>\<open>int\<close> the decrement overflows, which C++
  leaves undefined: \<open>None\<close>.
\<close>

definition int_decrement :: "int \<Rightarrow> int option" where
  "int_decrement t = (if t = - (2 ^ 31) then None else Some (t - 1))"

record Automation =
  Automation_automation :: string
  Automation_cursor :: string
  Automation_value :: float
  Automation_delta :: float
  Automation_t :: int

definition Automation_init :: "string \<Rightarrow> Automation" where
  "Automation_init automation =
     \<lparr>Automation_automation = automation, Automation_cursor = automation,
      Automation_value = Fin 0, Automation_delta = Fin 0, Automation_t = 1\<rparr>"

text \<open>
  \<^verbatim>\<open>Automation::process\<close>. \<open>None\<close> is undefined behaviour: a decrement of \<open>t\<close> that
  overflows, or a duration whose tick count \<^verbatim>\<open>parse_number() / DT\<close> does not fit an \<^verbatim>\<open>int\<close>.
\<close>

definition Automation_process :: "Automation \<Rightarrow> (float \<times> Automation) option" where
  "Automation_process a =
     (let value = add32 (Automation_value a) (Automation_delta a) in
      case int_decrement (Automation_t a) of
        None \<Rightarrow> None
      | Some t \<Rightarrow>
          if t = 0 then
            if deref (Automation_cursor a) \<noteq> NUL then
              (case parse_number (Automation_cursor a) of
                 (new_value, cs1) \<Rightarrow>
                   if deref cs1 = CHR ''/'' then
                     (case parse_number (tl cs1) of
                        (duration, cs2) \<Rightarrow>
                          (case float_to_int 32 (div32 duration DT32) of
                             None \<Rightarrow> None
                           | Some t' \<Rightarrow>
                               Some (value,
                                 a\<lparr>Automation_cursor := skip_space cs2,
                                   Automation_value := value,
                                   Automation_delta :=
                                     div32 (sub32 new_value value) (int_to_float t'),
                                   Automation_t := t'\<rparr>)))
                   else
                     Some (new_value,
                       a\<lparr>Automation_cursor := skip_space cs1,
                         Automation_value := new_value,
                         Automation_delta := Fin 0,
                         Automation_t := 1\<rparr>))
            else
              Some (value,
                a\<lparr>Automation_value := value, Automation_delta := Fin 0, Automation_t := t\<rparr>)
          else Some (value, a\<lparr>Automation_value := value, Automation_t := t\<rparr>))"

definition Automation_reset :: "Automation \<Rightarrow> Automation" where
  "Automation_reset a =
     a\<lparr>Automation_cursor := Automation_automation a, Automation_value := Fin 0,
       Automation_delta := Fin 0, Automation_t := 1\<rparr>"

text \<open>
  \<open>n\<close> calls of \<^verbatim>\<open>process\<close> in a row: the value the last one returned (that of tick \<open>n\<close>,
  counting the first call as tick 1) and the state afterwards.
\<close>

fun Automation_ticks :: "nat \<Rightarrow> Automation \<Rightarrow> (float \<times> Automation) option" where
  "Automation_ticks 0 a = Some (Automation_value a, a)"
| "Automation_ticks (Suc n) a =
     (case Automation_ticks n a of
        None \<Rightarrow> None
      | Some (_, a') \<Rightarrow> Automation_process a')"

section \<open>MIDI events, the step pattern and the envelope\<close>

type_synonym uchar = "8 word"

record MIDIEvent =
  MIDIEvent_status :: uchar
  MIDIEvent_data1 :: uchar
  MIDIEvent_data2 :: uchar

text \<open>The default constructor: \<^verbatim>\<open>MIDIEvent(): status(0), data1(0), data2(2) {}\<close>.\<close>

definition MIDIEvent_empty :: MIDIEvent where
  "MIDIEvent_empty = \<lparr>MIDIEvent_status = 0, MIDIEvent_data1 = 0, MIDIEvent_data2 = 2\<rparr>"

definition create_note_off :: "uchar \<Rightarrow> uchar \<Rightarrow> uchar \<Rightarrow> MIDIEvent" where
  "create_note_off note velocity channel =
     \<lparr>MIDIEvent_status = 0x80 OR channel, MIDIEvent_data1 = note, MIDIEvent_data2 = velocity\<rparr>"

definition create_note_on :: "uchar \<Rightarrow> uchar \<Rightarrow> uchar \<Rightarrow> MIDIEvent" where
  "create_note_on note velocity channel =
     \<lparr>MIDIEvent_status = 0x90 OR channel, MIDIEvent_data1 = note, MIDIEvent_data2 = velocity\<rparr>"

definition is_note_off :: "MIDIEvent \<Rightarrow> bool" where
  "is_note_off e = (MIDIEvent_status e AND 0xF0 = 0x80)"

definition is_note_on :: "MIDIEvent \<Rightarrow> bool" where
  "is_note_on e = (MIDIEvent_status e AND 0xF0 = 0x90)"

text \<open>The clock tick \<^verbatim>\<open>MIDIEvent(0xF8, 0, 0)\<close> that \<^verbatim>\<open>MIDIClock\<close> emits.\<close>

definition clock_tick :: MIDIEvent where
  "clock_tick = \<lparr>MIDIEvent_status = 0xF8, MIDIEvent_data1 = 0, MIDIEvent_data2 = 0\<rparr>"

text \<open>
  \<^verbatim>\<open>pattern[i]\<close> on a C string: a character of the pattern, the terminating NUL at
  \<open>i = length pattern\<close>, and a read out of bounds (undefined behaviour, \<open>None\<close>) beyond.
\<close>

definition pattern_at :: "string \<Rightarrow> int \<Rightarrow> char option" where
  "pattern_at pattern i =
     (if 0 \<le> i \<and> nat i < length pattern then Some (pattern ! nat i)
      else if i = int (length pattern) then Some NUL
      else None)"

text \<open>
  \<^verbatim>\<open>/\<close> and \<^verbatim>\<open>%\<close> on \<^verbatim>\<open>int\<close> round towards zero, with a divisor that is positive here.
\<close>

definition c_div :: "int \<Rightarrow> int \<Rightarrow> int" where
  "c_div a b = (if 0 \<le> a then a div b else - ((- a) div b))"

definition c_mod :: "int \<Rightarrow> int \<Rightarrow> int" where
  "c_mod a b = a - b * c_div a b"

record NotePattern =
  NotePattern_note :: uchar
  NotePattern_pattern :: string
  NotePattern_t :: int

definition NotePattern_init :: "uchar \<Rightarrow> string \<Rightarrow> NotePattern" where
  "NotePattern_init note pattern =
     \<lparr>NotePattern_note = note, NotePattern_pattern = pattern, NotePattern_t = 0\<rparr>"

text \<open>\<^verbatim>\<open>(c - '0') * 15\<close>, an \<^verbatim>\<open>int\<close>, passed as the \<^verbatim>\<open>uchar\<close> velocity.\<close>

definition step_velocity :: "char \<Rightarrow> uchar" where
  "step_velocity c = word_of_int ((of_char c - of_char (CHR ''0'')) * 15)"

definition is_step :: "char \<Rightarrow> bool" where
  "is_step c = (of_char (CHR ''0'') \<le> (of_char c :: nat) \<and> (of_char c :: nat) \<le> of_char (CHR ''8''))"

definition NotePattern_process :: "MIDIEvent \<Rightarrow> NotePattern \<Rightarrow> (MIDIEvent \<times> NotePattern) option" where
  "NotePattern_process clock p =
     (let t = NotePattern_t p; pattern = NotePattern_pattern p; note = NotePattern_note p in
      if MIDIEvent_status clock = 0xF8 then
        if c_mod t 6 = 0 then
          (case pattern_at pattern (c_div t 6) of
             None \<Rightarrow> None
           | Some c \<Rightarrow>
               Some (if is_step c then create_note_on note (step_velocity c) 0 else MIDIEvent_empty,
                     p\<lparr>NotePattern_t := t + 1\<rparr>))
        else if c_mod t 6 = 5 then
          (case pattern_at pattern (c_div t 6) of
             None \<Rightarrow> None
           | Some prev \<Rightarrow>
               (case pattern_at pattern (c_div (t + 1) 6) of
                  None \<Rightarrow> None
                | Some c \<Rightarrow>
                    (let t' = (if c = NUL then 0 else t + 1) in
                     case pattern_at pattern (c_div t' 6) of
                       None \<Rightarrow> None
                     | Some next \<Rightarrow>
                         Some (if prev \<noteq> CHR '' '' \<and> next \<noteq> CHR ''-''
                               then create_note_off note 127 0 else MIDIEvent_empty,
                               p\<lparr>NotePattern_t := t'\<rparr>))))
        else Some (MIDIEvent_empty, p\<lparr>NotePattern_t := t + 1\<rparr>)
      else Some (MIDIEvent_empty, p))"

text \<open>Feeding a pattern a list of events, one \<^verbatim>\<open>process\<close> call each: the events it emits.\<close>

fun NotePattern_run :: "MIDIEvent list \<Rightarrow> NotePattern \<Rightarrow> (MIDIEvent list \<times> NotePattern) option" where
  "NotePattern_run [] p = Some ([], p)"
| "NotePattern_run (clock # clocks) p =
     (case NotePattern_process clock p of
        None \<Rightarrow> None
      | Some (e, p') \<Rightarrow>
          (case NotePattern_run clocks p' of
             None \<Rightarrow> None
           | Some (es, p'') \<Rightarrow> Some (e # es, p'')))"

datatype State = Attack | Decay | Sustain | Release

record ADSR =
  ADSR_state :: State
  ADSR_value :: float
  ADSR_note :: uchar

definition ADSR_init :: ADSR where
  "ADSR_init = \<lparr>ADSR_state = Sustain, ADSR_value = Fin 0, ADSR_note = 0\<rparr>"

text \<open>
  The first half of \<^verbatim>\<open>ADSR::process\<close>: what the event does to the held note and to the
  state. \<^verbatim>\<open>const bool slide = note;\<close> is true when the note number held is not 0.
\<close>

definition ADSR_event :: "MIDIEvent \<Rightarrow> ADSR \<Rightarrow> ADSR" where
  "ADSR_event event s =
     (if is_note_on event then
        (let slide = (ADSR_note s \<noteq> 0) in
         s\<lparr>ADSR_note := MIDIEvent_data1 event,
           ADSR_state := (if \<not> slide then Attack else ADSR_state s)\<rparr>)
      else if is_note_off event \<and> MIDIEvent_data1 event = ADSR_note s then
        s\<lparr>ADSR_note := 0, ADSR_state := Release\<rparr>
      else s)"

text \<open>
  The second half: the \<^verbatim>\<open>switch\<close> on the state, in \<^verbatim>\<open>float\<close> arithmetic. The base of the
  power is the literal \<^verbatim>\<open>0.01f\<close>.
\<close>

definition ADSR_step :: "float \<Rightarrow> float \<Rightarrow> float \<Rightarrow> float \<Rightarrow> ADSR \<Rightarrow> ADSR" where
  "ADSR_step attack decay sustain release s =
     (case ADSR_state s of
        Attack \<Rightarrow>
          (let v = add32 (ADSR_value s) (mul32 (div32 (Fin 1000) attack) DT32) in
           if fge v (Fin 1) then s\<lparr>ADSR_value := Fin 1, ADSR_state := Decay\<rparr>
           else s\<lparr>ADSR_value := v\<rparr>)
      | Decay \<Rightarrow>
          s\<lparr>ADSR_value :=
              add32 sustain
                (mul32 (sub32 (ADSR_value s) sustain)
                   (pow32 (rnd 24 149 (1 / 100)) (div32 (mul32 DT32 (Fin 1000)) decay)))\<rparr>
      | Sustain \<Rightarrow> s
      | Release \<Rightarrow>
          (let v = sub32 (ADSR_value s) (mul32 (div32 (Fin 1000) release) DT32) in
           if fle v (Fin 0) then s\<lparr>ADSR_value := Fin 0, ADSR_state := Sustain\<rparr>
           else s\<lparr>ADSR_value := v\<rparr>))"

definition ADSR_process ::
  "MIDIEvent \<Rightarrow> float \<Rightarrow> float \<Rightarrow> float \<Rightarrow> float \<Rightarrow> ADSR \<Rightarrow> float \<times> ADSR" where
  "ADSR_process event attack decay sustain release s =
     (let s' = ADSR_step attack decay sustain release (ADSR_event event s)
      in (ADSR_value s', s'))"

text \<open>
  A run of \<^verbatim>\<open>process\<close> calls with fixed parameters, one per event: the state afterwards.
\<close>

fun ADSR_run :: "MIDIEvent list \<Rightarrow> float \<Rightarrow> float \<Rightarrow> float \<Rightarrow> float \<Rightarrow> ADSR \<Rightarrow> ADSR" where
  "ADSR_run [] attack decay sustain release s = s"
| "ADSR_run (e # es) attack decay sustain release s =
     ADSR_run es attack decay sustain release (snd (ADSR_process e attack decay sustain release s))"

section \<open>The WAV writer\<close>

text \<open>
  \<^verbatim>\<open>WAVOutput::run\<close> writes to a file through \<^verbatim>\<open>write_tag\<close> (four characters) and
  \<^verbatim>\<open>write<T>\<close> (the bytes of one integer of type \<open>T\<close>). The file is modelled as the list
  of these writes, in order; which bytes an integer becomes is left to the platform.
  The value written by \<^verbatim>\<open>write<int16_t>\<close> is read back with \<open>sint\<close>.
\<close>

datatype wav_item = Tag string | U32 "32 word" | U16 "16 word" | I16 "16 word"

text \<open>The bytes a write puts into the file: four for a tag, \<^verbatim>\<open>sizeof(T)\<close> for an integer.\<close>

fun wav_item_bytes :: "wav_item \<Rightarrow> nat" where
  "wav_item_bytes (Tag tag) = 4"
| "wav_item_bytes (U32 x) = 4"
| "wav_item_bytes (U16 x) = 2"
| "wav_item_bytes (I16 x) = 2"

text \<open>
  The argument of \<^verbatim>\<open>write<int16_t>(sample.left * 32767.f + .5f)\<close>: a product and a sum in
  \<^verbatim>\<open>float\<close>, each rounded, and the result converted to \<^verbatim>\<open>int16_t\<close>.
\<close>

definition quantize :: "float \<Rightarrow> int option" where
  "quantize x = float_to_int 16 (add32 (mul32 x (Fin 32767)) (Fin (5 / 10)))"

text \<open>
  The loop \<^verbatim>\<open>for (int t = 1; t <= frames; ++t)\<close>, from \<open>t\<close> on. \<open>get\<close> is \<^verbatim>\<open>input.get\<close>: a
  pull at a time, on the state \<open>'g\<close> of the graph. \<open>None\<close> is undefined behaviour (a sample
  that does not fit \<^verbatim>\<open>int16_t\<close>). \<^verbatim>\<open>++t\<close> does not overflow as long as \<open>frames\<close> is not the
  greatest \<^verbatim>\<open>int\<close>, since \<open>t \<le> frames\<close> before it.
\<close>

function wav_frames ::
  "(int \<Rightarrow> 'g \<Rightarrow> Sample \<times> 'g) \<Rightarrow> int \<Rightarrow> int \<Rightarrow> 'g \<Rightarrow> (wav_item list \<times> 'g) option" where
  "wav_frames get t frames g =
     (if t \<le> frames then
        (case get t g of
           (sample, g1) \<Rightarrow>
             (case quantize (Sample_left sample) of
                None \<Rightarrow> None
              | Some l \<Rightarrow>
                  (case quantize (Sample_right sample) of
                     None \<Rightarrow> None
                   | Some r \<Rightarrow>
                       (case wav_frames get (t + 1) frames g1 of
                          None \<Rightarrow> None
                        | Some (items, g2) \<Rightarrow>
                            Some (I16 (word_of_int l) # I16 (word_of_int r) # items, g2)))))
      else Some ([], g))"
  by pat_completeness auto
termination
  by (relation "measure (\<lambda>(get, t, frames, g). nat (frames + 1 - t))") auto

declare wav_frames.simps [simp del]

text \<open>
  The result of an operation on 32-bit \<^verbatim>\<open>int\<close>: outside the range of the type it is an
  overflow, undefined in C++ (\<open>None\<close>).
\<close>

definition int_result :: "int \<Rightarrow> int option" where
  "int_result i = (if - (2 ^ 31) \<le> i \<and> i < 2 ^ 31 then Some i else None)"

text \<open>
  The header. \<^verbatim>\<open>frames * 2 * 2\<close> and \<^verbatim>\<open>36 + frames * 2 * 2\<close> are \<^verbatim>\<open>int\<close> arithmetic, from left
  to right, and what they give is converted to \<^verbatim>\<open>uint32_t\<close>: the value modulo \<open>2 ^ 32\<close>.
\<close>

definition wav_header :: "int \<Rightarrow> wav_item list option" where
  "wav_header frames =
     (case int_result (frames * 2) of
        None \<Rightarrow> None
      | Some frames2 \<Rightarrow>
          (case int_result (frames2 * 2) of
             None \<Rightarrow> None
           | Some data \<Rightarrow>
               (case int_result (36 + data) of
                  None \<Rightarrow> None
                | Some riff \<Rightarrow>
                    Some [Tag ''RIFF'', U32 (word_of_int riff), Tag ''WAVE'',
                      Tag ''fmt '', U32 16, U16 1, U16 2, U32 44100, U32 (44100 * 2 * 2),
                      U16 (2 * 2), U16 16,
                      Tag ''data'', U32 (word_of_int data)])))"

text \<open>
  \<^verbatim>\<open>WAVOutput::run\<close>, for \<open>frames\<close> a 32-bit \<^verbatim>\<open>int\<close>. With \<open>frames\<close> the greatest \<^verbatim>\<open>int\<close> the
  condition \<^verbatim>\<open>t <= frames\<close> never fails and the loop does not end: \<open>None\<close> as well.
\<close>

definition WAVOutput_run ::
  "(int \<Rightarrow> 'g \<Rightarrow> Sample \<times> 'g) \<Rightarrow> int \<Rightarrow> 'g \<Rightarrow> (wav_item list \<times> 'g) option" where
  "WAVOutput_run get frames g =
     (if frames = 2 ^ 31 - 1 then None
      else
        (case wav_header frames of
           None \<Rightarrow> None
         | Some header \<Rightarrow>
             (case wav_frames get 1 frames g of
                None \<Rightarrow> None
              | Some (items, g') \<Rightarrow> Some (header @ items, g'))))"

text \<open>Pulling an output at each time of a list, in order: the samples and the state after.\<close>

fun Output_pulls :: "(int \<Rightarrow> 'g \<Rightarrow> 'a \<times> 'g) \<Rightarrow> int list \<Rightarrow> 'g \<Rightarrow> 'a list \<times> 'g" where
  "Output_pulls get [] g = ([], g)"
| "Output_pulls get (t # ts) g =
     (case get t g of
        (v, g1) \<Rightarrow> (case Output_pulls get ts g1 of (vs, g2) \<Rightarrow> (v # vs, g2)))"

text \<open>
  The data chunk that a list of samples becomes: two \<^verbatim>\<open>write<int16_t>\<close> per sample, left
  then right, each the conversion of \<open>quantize\<close>; \<open>None\<close> when one of them is undefined.
\<close>

fun encode_samples :: "Sample list \<Rightarrow> wav_item list option" where
  "encode_samples [] = Some []"
| "encode_samples (s # ss) =
     (case quantize (Sample_left s) of
        None \<Rightarrow> None
      | Some l \<Rightarrow>
          (case quantize (Sample_right s) of
             None \<Rightarrow> None
           | Some r \<Rightarrow>
               (case encode_samples ss of
                  None \<Rightarrow> None
                | Some items \<Rightarrow> Some (I16 (word_of_int l) # I16 (word_of_int r) # items))))"

section \<open>The memoizing nodes of modo.hh\<close>

text \<open>
  \<^verbatim>\<open>Node<T>\<close> caches the last value it produced and the logical time \<open>t\<close> it produced it
  for. Its constructor is \<^verbatim>\<open>Node(): value(), t(0) {}\<close>: the cache holds the
  value-initialised \<open>T\<close> (written \<open>d\<close> below) and the time stamp 0.

  \<^verbatim>\<open>produce()\<close> is virtual. It reads the time stamp the node has just stored (through
  \<^verbatim>\<open>get(Output<T2>&)\<close>, which pulls an input at \<^verbatim>\<open>this->t\<close>) and may change the state of the
  subclass and of every node upstream. The model passes it that time stamp and
  the state \<open>'s\<close> it can touch, and takes back the value and the new state. The time stamp
  is a C++ \<^verbatim>\<open>int\<close> that is only stored and compared, so it is an \<open>int\<close> here.
\<close>

record ('a, 's) Node =
  Node_value :: 'a
  Node_t :: int
  Node_self :: 's

definition Node_init :: "'a \<Rightarrow> 's \<Rightarrow> ('a, 's) Node" where
  "Node_init d s = \<lparr>Node_value = d, Node_t = 0, Node_self = s\<rparr>"

definition Node_get ::
  "(int \<Rightarrow> 's \<Rightarrow> 'a \<times> 's) \<Rightarrow> int \<Rightarrow> ('a, 's) Node \<Rightarrow> 'a \<times> ('a, 's) Node" where
  "Node_get produce t n =
     (if t \<noteq> Node_t n
      then (case produce t (Node_self n) of
              (v, s') \<Rightarrow> (v, \<lparr>Node_value = v, Node_t = t, Node_self = s'\<rparr>))
      else (Node_value n, n))"

text \<open>
  \<^verbatim>\<open>Node2<T>\<close> derives from the processing class \<open>T\<close> and owns one input socket per
  parameter of \<^verbatim>\<open>T::process\<close>. On a recomputation \<^verbatim>\<open>inputs.get_and_process(t, *this)\<close>
  pulls every socket at \<open>t\<close> (head first) and then calls \<^verbatim>\<open>process\<close> on the values.
  \<open>pull\<close> stands for the pulls (it may change the state \<open>'g\<close> upstream), \<open>process\<close> for the
  routine of \<open>T\<close> on its own state \<open>'p\<close>.

  \<^verbatim>\<open>Node2\<close> declares no constructor of its own (\<^verbatim>\<open>using T::T;\<close> inherits those of \<open>T\<close>) and
  its members \<^verbatim>\<open>value\<close> and \<^verbatim>\<open>t\<close> have no initialiser: they are default-initialised, which
  for an \<^verbatim>\<open>int\<close> or a \<^verbatim>\<open>float\<close> means whatever the storage held (0 only for an object
  with static storage or a value-initialised one). \<open>Node2_init\<close> therefore takes the
  two initial contents \<open>v0\<close> and \<open>t0\<close> as parameters.
\<close>

record ('a, 'p, 'g) Node2 =
  Node2_value :: 'a
  Node2_t :: int
  Node2_base :: 'p
  Node2_inputs :: 'g

definition Node2_init :: "'a \<Rightarrow> int \<Rightarrow> 'p \<Rightarrow> 'g \<Rightarrow> ('a, 'p, 'g) Node2" where
  "Node2_init v0 t0 p g =
     \<lparr>Node2_value = v0, Node2_t = t0, Node2_base = p, Node2_inputs = g\<rparr>"

definition Node2_get ::
  "(int \<Rightarrow> 'g \<Rightarrow> 'b \<times> 'g) \<Rightarrow> ('b \<Rightarrow> 'p \<Rightarrow> 'a \<times> 'p) \<Rightarrow> int \<Rightarrow> ('a, 'p, 'g) Node2
     \<Rightarrow> 'a \<times> ('a, 'p, 'g) Node2" where
  "Node2_get pull process t n =
     (if t \<noteq> Node2_t n
      then (case pull t (Node2_inputs n) of
              (args, g') \<Rightarrow>
                (case process args (Node2_base n) of
                   (v, p') \<Rightarrow>
                     (v, \<lparr>Node2_value = v, Node2_t = t, Node2_base = p', Node2_inputs = g'\<rparr>)))
      else (Node2_value n, n))"

text \<open>
  Several consumers pulling one node at the same time \<open>t\<close>: \<open>k\<close> calls of \<^verbatim>\<open>get(t)\<close> in a
  row, the values they return in order, and the node afterwards.
\<close>

fun Node_pulls ::
  "(int \<Rightarrow> 's \<Rightarrow> 'a \<times> 's) \<Rightarrow> int \<Rightarrow> nat \<Rightarrow> ('a, 's) Node \<Rightarrow> 'a list \<times> ('a, 's) Node" where
  "Node_pulls produce t 0 n = ([], n)"
| "Node_pulls produce t (Suc k) n =
     (case Node_get produce t n of
        (v, n') \<Rightarrow> (case Node_pulls produce t k n' of (vs, n'') \<Rightarrow> (v # vs, n'')))"

fun Node2_pulls ::
  "(int \<Rightarrow> 'g \<Rightarrow> 'b \<times> 'g) \<Rightarrow> ('b \<Rightarrow> 'p \<Rightarrow> 'a \<times> 'p) \<Rightarrow> int \<Rightarrow> nat \<Rightarrow> ('a, 'p, 'g) Node2
     \<Rightarrow> 'a list \<times> ('a, 'p, 'g) Node2" where
  "Node2_pulls pull process t 0 n = ([], n)"
| "Node2_pulls pull process t (Suc k) n =
     (case Node2_get pull process t n of
        (v, n') \<Rightarrow> (case Node2_pulls pull process t k n' of (vs, n'') \<Rightarrow> (v # vs, n'')))"

text \<open>
  The call counter of a test: a routine that counts its own invocations in its state,
  next to whatever else it does.
\<close>

definition counted :: "('x \<Rightarrow> 's \<Rightarrow> 'a \<times> 's) \<Rightarrow> 'x \<Rightarrow> nat \<times> 's \<Rightarrow> 'a \<times> (nat \<times> 's)" where
  "counted f x cs = (case f x (snd cs) of (v, s') \<Rightarrow> (v, (Suc (fst cs), s')))"

definition Node_calls :: "('a, nat \<times> 's) Node \<Rightarrow> nat" where
  "Node_calls n = fst (Node_self n)"

definition Node2_calls :: "('a, nat \<times> 'p, 'g) Node2 \<Rightarrow> nat" where
  "Node2_calls n = fst (Node2_base n)"

section \<open>Properties\<close>

subsection \<open>Arithmetic on numbers\<close>

lemma DT_eq: "DT = Fin (1 / 44100)"
  by (simp add: DT_def)

lemma c_div_nonneg: "0 \<le> a \<Longrightarrow> c_div a b = a div b"
  by (simp add: c_div_def)

lemma c_mod_nonneg: "0 \<le> a \<Longrightarrow> c_mod a b = a mod b"
  by (simp add: c_div_def c_mod_def minus_mult_div_eq_mod)

subsection \<open>Rounding\<close>

lemma round_even_bounds:
  "of_int (round_even x) - 1 / 2 \<le> x" "x \<le> of_int (round_even x) + 1 / 2"
  unfolding round_even_def Let_def by (auto; linarith)+

lemma round_even_int [simp]: "round_even (of_int k) = k"
  by (simp add: round_even_def)

lemma round_even_mono:
  assumes "x \<le> y"
  shows "round_even x \<le> round_even y"
proof (rule ccontr)
  assume "\<not> round_even x \<le> round_even y"
  then have "round_even y + 1 \<le> round_even x"
    by simp
  then have le: "real_of_int (round_even y) + 1 \<le> of_int (round_even x)"
    by linarith
  from round_even_bounds(1) [of x] round_even_bounds(2) [of y] assms le
  have "x = y"
    by linarith
  with \<open>\<not> round_even x \<le> round_even y\<close> show False
    by simp
qed

lemma round_even_neg: "round_even (- x) = - round_even x"
proof (cases "x \<in> \<int>")
  case True
  then obtain k where "x = of_int k"
    by (auto elim: Ints_cases)
  then have "- x = of_int (- k)"
    by simp
  then show ?thesis
    using \<open>x = of_int k\<close> round_even_int by metis
next
  case False
  have ne: "x \<noteq> of_int \<lfloor>x\<rfloor>"
    using False by (metis Ints_of_int)
  then have fl: "\<lfloor>- x\<rfloor> = - \<lfloor>x\<rfloor> - 1"
    by (simp add: floor_minus ceiling_altdef)
  from ne show ?thesis
    unfolding round_even_def Let_def fl by (auto; linarith?)
qed


lemma shift_upper: "\<bar>x\<bar> * 2 ^ q < 2 ^ (p + shift p q x)"
proof -
  define n where "n = \<lfloor>\<bar>x\<bar> * 2 ^ q\<rfloor>"
  have "bitlen n \<le> int (p + shift p q x)"
    by (simp add: shift_def n_def)
  then have "n < 2 ^ (p + shift p q x)"
    by (simp add: bitlen_le_iff_power nat_add_distrib)
  then show ?thesis
    unfolding n_def by (simp add: floor_less_iff)
qed

lemma shift_lower:
  assumes "0 < shift p q x"
  shows "2 ^ (p + shift p q x - 1) \<le> \<bar>x\<bar> * 2 ^ q"
proof -
  define n where "n = \<lfloor>\<bar>x\<bar> * 2 ^ q\<rfloor>"
  from assms have L: "bitlen n = int (p + shift p q x)"
    by (simp add: shift_def n_def)
  then have "int (p + shift p q x) \<le> bitlen n"
    by simp
  then have "2 ^ (p + shift p q x - 1) \<le> n"
    using assms by (simp add: bitlen_ge_iff_power nat_add_distrib)
  then have "2 ^ (p + shift p q x - 1) \<le> real_of_int n"
    by (metis of_int_le_iff of_int_numeral of_int_power)
  also have "\<dots> \<le> \<bar>x\<bar> * 2 ^ q"
    by (simp add: n_def)
  finally show ?thesis .
qed

lemma shift_le:
  assumes "\<bar>x\<bar> * 2 ^ q < 2 ^ (p + s)"
  shows "shift p q x \<le> s"
proof (rule ccontr)
  assume "\<not> shift p q x \<le> s"
  then have gt: "s < shift p q x"
    by simp
  then have "(2 :: real) ^ (p + s) \<le> 2 ^ (p + shift p q x - 1)"
    by (intro power_increasing) auto
  also have "\<dots> \<le> \<bar>x\<bar> * 2 ^ q"
    using gt by (intro shift_lower) simp
  finally show False
    using assms by simp
qed

lemma shift_ge:
  assumes "2 ^ (p + s - 1) \<le> \<bar>x\<bar> * 2 ^ q" and "0 < p"
  shows "s \<le> shift p q x"
proof (rule ccontr)
  assume "\<not> s \<le> shift p q x"
  then have "p + shift p q x \<le> p + s - 1"
    by simp
  then have "(2 :: real) ^ (p + shift p q x) \<le> 2 ^ (p + s - 1)"
    by (intro power_increasing) auto
  with shift_upper [of x q p] assms show False
    by simp
qed

lemma shift_eqI:
  "2 ^ (p + s - 1) \<le> \<bar>x\<bar> * 2 ^ q \<Longrightarrow> \<bar>x\<bar> * 2 ^ q < 2 ^ (p + s) \<Longrightarrow> 0 < p \<Longrightarrow>
   shift p q x = s"
  by (simp add: shift_le shift_ge order_antisym)

lemma shift_zero: "\<bar>x\<bar> * 2 ^ q < 2 ^ p \<Longrightarrow> shift p q x = 0"
  using shift_le [of x q p 0] by simp

lemma shift_neg [simp]: "shift p q (- x) = shift p q x"
  by (simp add: shift_def)

lemma shift_mono:
  assumes "\<bar>x\<bar> \<le> \<bar>y\<bar>"
  shows "shift p q x \<le> shift p q y"
proof -
  have "\<bar>x\<bar> * 2 ^ q \<le> \<bar>y\<bar> * 2 ^ q"
    using assms by simp
  also have "\<dots> < 2 ^ (p + shift p q y)"
    by (rule shift_upper)
  finally show ?thesis
    by (rule shift_le)
qed

lemma ulp_pos [simp]: "0 < ulp p q x"
  by (simp add: ulp_def)

lemma ulp_nonneg [simp]: "0 \<le> ulp p q x"
  by (simp add: ulp_def)

lemma ulp_neg [simp]: "ulp p q (- x) = ulp p q x"
  by (simp add: ulp_def)

lemma rnd_neg: "rnd p q (- x) = - rnd p q x"
  by (simp add: rnd_def round_even_neg)

lemma rnd_0 [simp]: "rnd p q 0 = 0"
  by (simp add: rnd_def round_even_def)

lemma rnd_error: "\<bar>rnd p q x - x\<bar> \<le> ulp p q x / 2"
proof -
  define u where "u = ulp p q x"
  have u: "0 < u"
    by (simp add: u_def)
  define k where "k = round_even (x / u)"
  have "of_int k - 1 / 2 \<le> x / u" "x / u \<le> of_int k + 1 / 2"
    unfolding k_def by (rule round_even_bounds)+
  then have "\<bar>of_int k - x / u\<bar> \<le> 1 / 2"
    by linarith
  then have A: "\<bar>of_int k - x / u\<bar> * u \<le> 1 / 2 * u"
    using u by (intro mult_right_mono) auto
  have "\<bar>of_int k - x / u\<bar> * u = \<bar>(of_int k - x / u) * u\<bar>"
    using u by (simp add: abs_mult)
  also have "(of_int k - x / u) * u = of_int k * u - x"
    using u by (simp add: left_diff_distrib)
  finally have "\<bar>of_int k * u - x\<bar> \<le> u / 2"
    using A by simp
  then show ?thesis
    unfolding rnd_def u_def k_def .
qed

lemma quotient_bound: "\<bar>x / ulp p q x\<bar> < 2 ^ p"
proof -
  have "\<bar>x / ulp p q x\<bar> = \<bar>x\<bar> * 2 ^ q / 2 ^ shift p q x"
    by (simp add: ulp_def abs_mult)
  also have "\<dots> < 2 ^ p"
    using shift_upper [of x q p] by (simp add: divide_less_eq power_add)
  finally show ?thesis .
qed

lemma mantissa_bound: "\<bar>round_even (x / ulp p q x)\<bar> \<le> 2 ^ p"
proof -
  have "x / ulp p q x < 2 ^ p \<and> - (x / ulp p q x) < 2 ^ p"
    using quotient_bound [of x p q] by (simp only: abs_less_iff)
  then have "x / ulp p q x \<le> of_int (2 ^ p)" "of_int (- (2 ^ p)) \<le> x / ulp p q x"
    by simp_all
  then have "round_even (x / ulp p q x) \<le> round_even (of_int (2 ^ p))"
    "round_even (of_int (- (2 ^ p))) \<le> round_even (x / ulp p q x)"
    by (simp_all only: round_even_mono)
  then show ?thesis
    unfolding round_even_int by simp
qed


lemma rnd_shift:
  "shift p q x = s \<Longrightarrow> rnd p q x = of_int (round_even (x * 2 ^ q / 2 ^ s)) * 2 ^ s / 2 ^ q"
  by (simp add: rnd_def ulp_def)

lemma rnd_normal:
  "2 ^ (p + s - 1) \<le> \<bar>x\<bar> * 2 ^ q \<Longrightarrow> \<bar>x\<bar> * 2 ^ q < 2 ^ (p + s) \<Longrightarrow> 0 < p \<Longrightarrow>
   rnd p q x = of_int (round_even (x * 2 ^ q / 2 ^ s)) * 2 ^ s / 2 ^ q"
  by (simp add: rnd_shift shift_eqI)

lemma rnd_exact:
  assumes k: "\<bar>k\<bar> \<le> 2 ^ p" and p: "0 < p"
  shows "rnd p q (of_int k * 2 ^ s / 2 ^ q) = of_int k * 2 ^ s / 2 ^ q"
proof -
  define x :: real where "x = of_int k * 2 ^ s / 2 ^ q"
  define t where "t = shift p q x"
  have z: "\<bar>x\<bar> * 2 ^ q = of_int \<bar>k\<bar> * 2 ^ s"
    by (simp add: x_def abs_mult)
  have kr: "real_of_int \<bar>k\<bar> \<le> 2 ^ p"
    using k by (metis of_int_le_iff of_int_numeral of_int_power)
  have "\<bar>x\<bar> * 2 ^ q < 2 ^ (p + (s + 1))"
  proof -
    have "of_int \<bar>k\<bar> * (2 :: real) ^ s \<le> 2 ^ p * 2 ^ s"
      using kr by (intro mult_right_mono) auto
    also have "\<dots> < 2 ^ (p + (s + 1))"
      by (simp add: power_add)
    finally show ?thesis
      by (simp only: z)
  qed
  then have t: "t \<le> s + 1"
    unfolding t_def by (rule shift_le)
  have "\<exists>m. x * 2 ^ q / 2 ^ t = of_int m"
  proof (cases "t \<le> s")
    case True
    then obtain d where "s = t + d"
      by (auto simp: le_iff_add)
    then have "x * 2 ^ q / 2 ^ t = of_int (k * 2 ^ d)"
      by (simp add: x_def power_add)
    then show ?thesis ..
  next
    case False
    with t have ts: "t = s + 1"
      by simp
    then have "0 < shift p q x"
      by (simp add: t_def)
    then have "2 ^ (p + t - 1) \<le> \<bar>x\<bar> * 2 ^ q"
      unfolding t_def by (rule shift_lower)
    then have "(2 :: real) ^ p * 2 ^ s \<le> of_int \<bar>k\<bar> * 2 ^ s"
      by (simp add: z ts power_add)
    then have "(2 :: real) ^ p \<le> of_int \<bar>k\<bar>"
      by simp
    with kr have "real_of_int \<bar>k\<bar> = 2 ^ p"
      by simp
    then have "\<bar>k\<bar> = 2 ^ p"
      by (metis of_int_eq_iff of_int_numeral of_int_power)
    then consider "k = 2 ^ p" | "k = - (2 ^ p)"
      by (auto simp: abs_if split: if_splits)
    then show ?thesis
    proof cases
      case 1
      obtain p' where "p = Suc p'"
        using p by (cases p) auto
      then have "x * 2 ^ q / 2 ^ t = of_int (2 ^ p')"
        by (simp add: x_def ts 1)
      then show ?thesis ..
    next
      case 2
      obtain p' where "p = Suc p'"
        using p by (cases p) auto
      then have "x * 2 ^ q / 2 ^ t = of_int (- (2 ^ p'))"
        by (simp add: x_def ts 2)
      then show ?thesis ..
    qed
  qed
  then obtain m where m: "x * 2 ^ q / 2 ^ t = of_int m" ..
  have "rnd p q x = of_int (round_even (x * 2 ^ q / 2 ^ t)) * 2 ^ t / 2 ^ q"
    by (rule rnd_shift) (simp add: t_def)
  also have "\<dots> = x * 2 ^ q / 2 ^ t * 2 ^ t / 2 ^ q"
    by (simp only: m round_even_int)
  also have "\<dots> = x"
    by simp
  finally show ?thesis
    by (simp only: x_def)
qed

lemma rnd_idem: "0 < p \<Longrightarrow> rnd p q (rnd p q x) = rnd p q x"
  unfolding rnd_def [of p q x] ulp_def
  using rnd_exact [of "round_even (x / ulp p q x)" p q "shift p q x"] mantissa_bound [of x p q]
  by (simp add: ulp_def)

lemma rnd_int: "\<bar>k\<bar> \<le> 2 ^ p \<Longrightarrow> 0 < p \<Longrightarrow> rnd p q (of_int k) = of_int k"
  using rnd_exact [of k p q q] by simp

lemma rnd_dyadic:
  "\<bar>k\<bar> \<le> 2 ^ p \<Longrightarrow> 0 < p \<Longrightarrow> e \<le> q \<Longrightarrow> rnd p q (of_int k / 2 ^ e) = of_int k / 2 ^ e"
  using rnd_exact [of k p q "q - e"] by (simp add: power_diff)

lemma rnd_mono_nonneg:
  assumes "0 \<le> x" and "x \<le> y" and "0 < p"
  shows "rnd p q x \<le> rnd p q y"
proof -
  have sh: "shift p q x \<le> shift p q y"
    using assms by (intro shift_mono) simp
  obtain p' where p': "p = Suc p'"
    using assms by (cases p) auto
  show ?thesis
  proof (cases "shift p q x = shift p q y")
    case True
    then have u: "ulp p q x = ulp p q y"
      by (simp add: ulp_def)
    have "x / ulp p q y \<le> y / ulp p q y"
      using assms by (intro divide_right_mono) (auto simp: less_imp_le)
    then have "round_even (x / ulp p q y) \<le> round_even (y / ulp p q y)"
      by (rule round_even_mono)
    then show ?thesis
      by (simp add: rnd_def u)
  next
    case False
    with sh have lt: "shift p q x < shift p q y"
      by simp
    define s where "s = shift p q x"
    define t where "t = shift p q y"
    have "round_even (x / ulp p q x) \<le> 2 ^ p"
      using mantissa_bound [of x p q] by simp
    then have "real_of_int (round_even (x / ulp p q x)) \<le> 2 ^ p"
      by (metis of_int_le_iff of_int_numeral of_int_power)
    then have "rnd p q x \<le> 2 ^ p * ulp p q x"
      unfolding rnd_def by (intro mult_right_mono) auto
    also have "\<dots> = 2 ^ (p + s) / 2 ^ q"
      by (simp add: ulp_def s_def power_add)
    also have "\<dots> \<le> 2 ^ (p' + t) / 2 ^ q"
      using lt by (intro divide_right_mono power_increasing) (auto simp: s_def t_def p')
    finally have upper: "rnd p q x \<le> 2 ^ (p' + t) / 2 ^ q" .
    have "0 < t"
      using lt by (simp add: t_def)
    then have "2 ^ (p + t - 1) \<le> \<bar>y\<bar> * 2 ^ q"
      unfolding t_def by (rule shift_lower)
    moreover have "0 \<le> y"
      using assms by simp
    ultimately have "2 ^ p' * 2 ^ t \<le> y * 2 ^ q"
      by (simp add: p' power_add)
    then have "of_int (2 ^ p') \<le> y / ulp p q y"
      by (simp add: ulp_def t_def divide_simps mult.commute)
    then have "round_even (of_int (2 ^ p')) \<le> round_even (y / ulp p q y)"
      by (rule round_even_mono)
    then have "2 ^ p' \<le> round_even (y / ulp p q y)"
      by (simp only: round_even_int)
    then have "real_of_int (2 ^ p') \<le> of_int (round_even (y / ulp p q y))"
      by (simp only: of_int_le_iff)
    then have "real_of_int (2 ^ p') * ulp p q y \<le> rnd p q y"
      unfolding rnd_def by (intro mult_right_mono) auto
    moreover have "real_of_int (2 ^ p') * ulp p q y = 2 ^ (p' + t) / 2 ^ q"
      by (simp add: ulp_def t_def power_add)
    ultimately show ?thesis
      using upper by simp
  qed
qed

lemma rnd_nonneg:
  assumes "0 \<le> x"
  shows "0 \<le> rnd p q x"
proof -
  have "of_int 0 \<le> x / ulp p q x"
    using assms by simp
  then have "round_even (of_int 0) \<le> round_even (x / ulp p q x)"
    by (rule round_even_mono)
  then show ?thesis
    unfolding rnd_def round_even_int by simp
qed

lemma rnd_mono:
  assumes "x \<le> y" and "0 < p"
  shows "rnd p q x \<le> rnd p q y"
proof -
  consider "0 \<le> x" | "y \<le> 0" | "x < 0" "0 < y"
    by linarith
  then show ?thesis
  proof cases
    case 1
    then show ?thesis
      using assms by (rule rnd_mono_nonneg)
  next
    case 2
    then have "rnd p q (- y) \<le> rnd p q (- x)"
      using assms by (intro rnd_mono_nonneg) auto
    then show ?thesis
      by (simp add: rnd_neg)
  next
    case 3
    then have "0 \<le> rnd p q y" "0 \<le> rnd p q (- x)"
      by (intro rnd_nonneg; simp)+
    then show ?thesis
      by (simp add: rnd_neg)
  qed
qed

lemma ulp_subnormal: "\<bar>x\<bar> * 2 ^ q < 2 ^ p \<Longrightarrow> ulp p q x = 1 / 2 ^ q"
  by (simp add: ulp_def shift_zero)

lemma ulp_le: "\<bar>x\<bar> * 2 ^ q < 2 ^ (p + s) \<Longrightarrow> ulp p q x \<le> 2 ^ s / 2 ^ q"
  unfolding ulp_def by (intro divide_right_mono power_increasing shift_le) auto

lemma ulp_relative:
  assumes "0 < shift p q x"
  shows "ulp p q x * 2 ^ p \<le> 2 * \<bar>x\<bar>"
proof -
  have "2 ^ (p + shift p q x - 1) \<le> \<bar>x\<bar> * 2 ^ q"
    using assms by (rule shift_lower)
  moreover have "(2 :: real) * 2 ^ (p + shift p q x - 1) = 2 ^ p * 2 ^ shift p q x"
    using assms by (cases "shift p q x") (auto simp: power_add)
  ultimately have "(2 :: real) ^ p * 2 ^ shift p q x \<le> 2 * \<bar>x\<bar> * 2 ^ q"
    by simp
  then show ?thesis
    by (simp add: ulp_def divide_simps mult.commute)
qed

lemma rnd_abs_le:
  assumes "\<bar>x\<bar> \<le> b" and "rnd p q b = b" and "0 < p"
  shows "\<bar>rnd p q x\<bar> \<le> b"
proof -
  have "rnd p q x \<le> rnd p q b" "rnd p q (- b) \<le> rnd p q x"
    using assms by (intro rnd_mono; simp add: abs_le_iff; linarith)+
  then show ?thesis
    using assms(2) by (simp add: rnd_neg abs_le_iff)
qed

lemma round32_Fin: "\<bar>rnd 24 149 x\<bar> < 2 ^ 128 \<Longrightarrow> round32 x = Fin (rnd 24 149 x)"
  by (simp add: round32_def Let_def abs_less_iff not_le)

lemma round32_exact:
  assumes "\<bar>k\<bar> \<le> 2 ^ 24" and "e \<le> 149"
  shows "round32 (of_int k / 2 ^ e) = Fin (of_int k / 2 ^ e)"
proof -
  have r: "rnd 24 149 (of_int k / 2 ^ e) = of_int k / 2 ^ e"
    using assms by (intro rnd_dyadic) auto
  have "real_of_int \<bar>k\<bar> \<le> 2 ^ 24"
    using assms(1) by (metis of_int_le_iff of_int_numeral of_int_power)
  then have "\<bar>real_of_int k\<bar> \<le> 2 ^ 24"
    by simp
  moreover have "\<bar>real_of_int k / 2 ^ e\<bar> \<le> \<bar>real_of_int k\<bar>"
    by (simp add: abs_divide divide_le_eq mult_le_cancel_left1)
  ultimately have "\<bar>real_of_int k / 2 ^ e\<bar> < 2 ^ 128"
    by simp
  then show ?thesis
    by (simp add: round32_Fin r)
qed

lemma round32_int: "\<bar>k\<bar> \<le> 2 ^ 24 \<Longrightarrow> round32 (of_int k) = Fin (of_int k)"
  using round32_exact [of k 0] by simp

lemma round32_normal:
  assumes "2 ^ (23 + s) \<le> \<bar>x\<bar> * 2 ^ 149" and "\<bar>x\<bar> * 2 ^ 149 < 2 ^ (24 + s)" and "\<bar>x\<bar> \<le> 2 ^ 127"
  shows "round32 x = Fin (of_int (round_even (x * 2 ^ 149 / 2 ^ s)) * 2 ^ s / 2 ^ 149)"
proof -
  have "rnd 24 149 (2 ^ 127) = 2 ^ 127"
    using rnd_exact [of 1 24 149 276] by simp
  with assms(3) have "\<bar>rnd 24 149 x\<bar> \<le> 2 ^ 127"
    by (intro rnd_abs_le) auto
  then have "round32 x = Fin (rnd 24 149 x)"
    by (intro round32_Fin) simp
  moreover have "rnd 24 149 x = of_int (round_even (x * 2 ^ 149 / 2 ^ s)) * 2 ^ s / 2 ^ 149"
    using assms(1, 2) by (intro rnd_normal) auto
  ultimately show ?thesis
    by simp
qed

lemma round32_subnormal:
  assumes "\<bar>x\<bar> * 2 ^ 149 < 2 ^ 24"
  shows "round32 x = Fin (of_int (round_even (x * 2 ^ 149)) / 2 ^ 149)"
proof -
  have sh: "shift 24 149 x = 0"
    using assms by (rule shift_zero)
  have r: "rnd 24 149 x = of_int (round_even (x * 2 ^ 149)) / 2 ^ 149"
    using rnd_shift [OF sh] by simp
  have "\<bar>rnd 24 149 x - x\<bar> \<le> ulp 24 149 x / 2"
    by (rule rnd_error)
  moreover have "ulp 24 149 x = 1 / 2 ^ 149"
    by (simp add: ulp_def sh)
  ultimately have e: "\<bar>rnd 24 149 x - x\<bar> \<le> 1 / 2 ^ 149 / 2"
    by simp
  have x: "\<bar>x\<bar> < 2 ^ 24 / 2 ^ 149"
    using assms by (simp add: divide_simps)
  have "(2 ^ 24 / 2 ^ 149 :: real) + 1 / 2 ^ 149 / 2 < 2 ^ 128"
    by simp
  with e x have "\<bar>rnd 24 149 x\<bar> < 2 ^ 128"
    by linarith
  then show ?thesis
    by (simp add: round32_Fin r)
qed

lemma add32_Fin [simp]: "add32 (Fin x) (Fin y) = round32 (x + y)"
  by (simp add: add32_def)

lemma sub32_Fin [simp]: "sub32 (Fin x) (Fin y) = round32 (x - y)"
  by (simp add: sub32_def fsub_def)

lemma mul32_Fin [simp]: "mul32 (Fin x) (Fin y) = round32 (x * y)"
  by (simp add: mul32_def)

lemma div32_Fin [simp]: "y \<noteq> 0 \<Longrightarrow> div32 (Fin x) (Fin y) = round32 (x / y)"
  by (simp add: div32_def)

lemma round32_cases:
  obtains "round32 x = PInf" "2 ^ 128 \<le> rnd 24 149 x"
  | "round32 x = NInf" "rnd 24 149 x \<le> - (2 ^ 128)"
  | "round32 x = Fin (rnd 24 149 x)"
  unfolding round32_def Let_def by (cases "2 ^ 128 \<le> rnd 24 149 x"; cases "rnd 24 149 x \<le> - (2 ^ 128)"; simp)

lemma rnd_between:
  assumes "a \<le> x" and "x \<le> b" and "rnd 24 149 a = a" and "rnd 24 149 b = b"
  shows "a \<le> rnd 24 149 x" and "rnd 24 149 x \<le> b"
  using rnd_mono [of a x 24 149] rnd_mono [of x b 24 149] assms by simp_all

lemma rnd_half_integer: "\<bar>k\<bar> \<le> 2 ^ 24 \<Longrightarrow> rnd 24 149 (of_int k / 2) = of_int k / 2"
  using rnd_dyadic [of k 24 1 149] by simp

text \<open>Below \<open>2 ^ 15\<close> the numbers of binary32 are at most \<open>1 / 512\<close> apart.\<close>

lemma rnd_error_15:
  assumes "\<bar>x\<bar> < 2 ^ 15"
  shows "\<bar>rnd 24 149 x - x\<bar> \<le> 1 / 1024"
proof -
  have "\<bar>x\<bar> * 2 ^ 149 < 2 ^ 15 * 2 ^ 149"
    using assms by (intro mult_strict_right_mono) auto
  then have "\<bar>x\<bar> * 2 ^ 149 < 2 ^ (24 + 140)"
    by simp
  then have "ulp 24 149 x \<le> 2 ^ 140 / 2 ^ 149"
    by (rule ulp_le)
  moreover have "\<bar>rnd 24 149 x - x\<bar> \<le> ulp 24 149 x / 2"
    by (rule rnd_error)
  ultimately show ?thesis
    by simp
qed

text \<open>
  A sum of absolute value below 2 is rounded to a number of binary32 at most \<open>2 ^ -24\<close>
  away.
\<close>

lemma rnd_error_2:
  assumes "\<bar>x\<bar> < 2"
  shows "\<bar>rnd 24 149 x - x\<bar> \<le> 1 / 2 ^ 24"
proof -
  have "\<bar>x\<bar> * 2 ^ 149 < 2 * 2 ^ 149"
    using assms by (intro mult_strict_right_mono) auto
  then have "\<bar>x\<bar> * 2 ^ 149 < 2 ^ (24 + 126)"
    by simp
  then have "ulp 24 149 x \<le> 2 ^ 126 / 2 ^ 149"
    by (rule ulp_le)
  moreover have "\<bar>rnd 24 149 x - x\<bar> \<le> ulp 24 149 x / 2"
    by (rule rnd_error)
  ultimately show ?thesis
    by simp
qed

lemma round32_small:
  assumes "\<bar>x\<bar> < 2"
  shows "round32 x = Fin (rnd 24 149 x)"
proof -
  have "\<bar>rnd 24 149 x\<bar> \<le> 2"
    using assms rnd_int [of 2 24 149] by (intro rnd_abs_le) auto
  then show ?thesis
    by (intro round32_Fin) simp
qed

lemma round32_0 [simp]: "round32 0 = Fin 0"
  using round32_int [of 0] by simp

lemma round32_1 [simp]: "round32 1 = Fin 1"
  using round32_int [of 1] by simp

lemma round32_numeral [simp]:
  "(numeral n :: int) \<le> 2 ^ 24 \<Longrightarrow> round32 (numeral n) = Fin (numeral n)"
  using round32_int [of "numeral n"] by simp

subsection \<open>Memoization\<close>

lemma Node_pulls_cached:
  "Node_t n = t \<Longrightarrow> Node_pulls produce t k n = (replicate k (Node_value n), n)"
  by (induction k) (simp_all add: Node_get_def)

lemma Node_pulls_fresh:
  "t \<noteq> Node_t n \<Longrightarrow>
   Node_pulls produce t (Suc k) n =
     (replicate (Suc k) (fst (produce t (Node_self n))),
      \<lparr>Node_value = fst (produce t (Node_self n)), Node_t = t,
       Node_self = snd (produce t (Node_self n))\<rparr>)"
  by (simp add: Node_get_def Node_pulls_cached split: prod.splits)

lemma Node2_pulls_cached:
  "Node2_t n = t \<Longrightarrow> Node2_pulls pull process t k n = (replicate k (Node2_value n), n)"
  by (induction k) (simp_all add: Node2_get_def)

lemma Node2_pulls_fresh:
  "t \<noteq> Node2_t n \<Longrightarrow>
   Node2_pulls pull process t (Suc k) n =
     (case pull t (Node2_inputs n) of
        (args, g') \<Rightarrow>
          (case process args (Node2_base n) of
             (v, p') \<Rightarrow>
               (replicate (Suc k) v,
                \<lparr>Node2_value = v, Node2_t = t, Node2_base = p', Node2_inputs = g'\<rparr>)))"
  by (simp add: Node2_get_def Node2_pulls_cached split: prod.splits)

text \<open>
  C1, as amended. However many consumers pull a node at one logical time \<open>t\<close> (\<open>k + 1\<close>
  calls of \<^verbatim>\<open>get(t)\<close> in a row), every call returns the value the first call returned, and
  the processing routine runs at most once: exactly once when \<open>t\<close> differs from the time
  stamp the node holds at the first call, and not at all when \<open>t\<close> equals it. This holds
  for \<^verbatim>\<open>Node\<close> and for \<^verbatim>\<open>Node2\<close>, for every routine and every state of the node.
\<close>

theorem Node_get_memoized:
  "fst (Node_pulls (counted produce) t (Suc k) n) =
     replicate (Suc k) (fst (Node_get (counted produce) t n)) \<and>
   Node_calls (snd (Node_pulls (counted produce) t (Suc k) n)) =
     Node_calls n + (if t = Node_t n then 0 else 1) \<and>
   fst (Node2_pulls pull (counted process) t (Suc k) m) =
     replicate (Suc k) (fst (Node2_get pull (counted process) t m)) \<and>
   Node2_calls (snd (Node2_pulls pull (counted process) t (Suc k) m)) =
     Node2_calls m + (if t = Node2_t m then 0 else 1)"
proof -
  have a: "fst (Node_pulls (counted produce) t (Suc k) n) =
      replicate (Suc k) (fst (Node_get (counted produce) t n))"
    by (cases "t = Node_t n")
       (simp_all add: Node_pulls_cached Node_pulls_fresh Node_get_def
          del: Node_pulls.simps split: prod.splits)
  have b: "Node_calls (snd (Node_pulls (counted produce) t (Suc k) n)) =
      Node_calls n + (if t = Node_t n then 0 else 1)"
    by (cases "t = Node_t n")
       (simp_all add: Node_pulls_cached Node_pulls_fresh Node_calls_def counted_def
          del: Node_pulls.simps split: prod.splits)
  have c: "fst (Node2_pulls pull (counted process) t (Suc k) m) =
      replicate (Suc k) (fst (Node2_get pull (counted process) t m))"
    by (cases "t = Node2_t m")
       (simp_all add: Node2_pulls_cached Node2_pulls_fresh Node2_get_def
          del: Node2_pulls.simps split: prod.splits)
  have d: "Node2_calls (snd (Node2_pulls pull (counted process) t (Suc k) m)) =
      Node2_calls m + (if t = Node2_t m then 0 else 1)"
    by (cases "t = Node2_t m")
       (simp_all add: Node2_pulls_cached Node2_pulls_fresh Node2_calls_def counted_def
          del: Node2_pulls.simps split: prod.splits)
  from a b c d show ?thesis by blast
qed

text \<open>
  C1 as stated fails at \<open>t = 0\<close> on a node that has not been pulled yet: its time stamp
  is 0 already, so three pulls at time 0 return the value-initialised cache (0 here, not
  the 7 that \<^verbatim>\<open>produce\<close> would compute) and \<^verbatim>\<open>produce\<close> has run zero times, not once.
\<close>

theorem Node_get_exactly_once_counterexample:
  "Node_pulls (counted (\<lambda>t s. (7, s))) 0 3 (Node_init (0 :: int) (0, ())) =
     ([0, 0, 0], Node_init 0 (0, ())) \<and>
   Node_calls (snd (Node_pulls (counted (\<lambda>t s. (7, s))) 0 3 (Node_init (0 :: int) (0, ())))) \<noteq> 1"
  by (simp add: Node_pulls_cached Node_init_def Node_calls_def numeral_3_eq_3
      del: Node_pulls.simps)

subsection \<open>The step pattern\<close>

text \<open>
  C5. A \<^verbatim>\<open>NotePattern\<close> with the pattern \<^verbatim>\<open>"5--"\<close>, for any note number, fed 18 clock ticks:
  it emits a note-on with velocity 75 at the first tick, a note-off (velocity 127) at the
  18th, and the empty event \<^verbatim>\<open>MIDIEvent()\<close> at each of the 16 ticks between; no read
  leaves the pattern, and the pattern is back at its first step.
\<close>

theorem NotePattern_5_tie_tie:
  "NotePattern_run (replicate 18 clock_tick) (NotePattern_init note ''5--'') =
     Some (\<lparr>MIDIEvent_status = 0x90, MIDIEvent_data1 = note, MIDIEvent_data2 = 75\<rparr> #
           replicate 16 MIDIEvent_empty @
           [\<lparr>MIDIEvent_status = 0x80, MIDIEvent_data1 = note, MIDIEvent_data2 = 127\<rparr>],
           NotePattern_init note ''5--'') \<and>
   is_note_on \<lparr>MIDIEvent_status = 0x90, MIDIEvent_data1 = note, MIDIEvent_data2 = 75\<rparr> \<and>
   is_note_off \<lparr>MIDIEvent_status = 0x80, MIDIEvent_data1 = note, MIDIEvent_data2 = 127\<rparr> \<and>
   \<not> is_note_on MIDIEvent_empty \<and> \<not> is_note_off MIDIEvent_empty"
proof -
  have run: "NotePattern_run (replicate 18 clock_tick) (NotePattern_init note ''5--'') =
     Some (create_note_on note 75 0 # replicate 16 MIDIEvent_empty @ [create_note_off note 127 0],
           NotePattern_init note ''5--'')"
    by (simp add: eval_nat_numeral NotePattern_init_def NotePattern_process_def clock_tick_def
        c_div_nonneg c_mod_nonneg pattern_at_def is_step_def step_velocity_def Let_def NUL_def)
  have events: "create_note_on note 75 0 =
      \<lparr>MIDIEvent_status = 0x90, MIDIEvent_data1 = note, MIDIEvent_data2 = 75\<rparr>"
    "create_note_off note 127 0 =
      \<lparr>MIDIEvent_status = 0x80, MIDIEvent_data1 = note, MIDIEvent_data2 = 127\<rparr>"
    by (simp_all add: create_note_on_def create_note_off_def)
  have kinds:
    "is_note_on \<lparr>MIDIEvent_status = 0x90, MIDIEvent_data1 = note, MIDIEvent_data2 = 75\<rparr>"
    "is_note_off \<lparr>MIDIEvent_status = 0x80, MIDIEvent_data1 = note, MIDIEvent_data2 = 127\<rparr>"
    "\<not> is_note_on MIDIEvent_empty" "\<not> is_note_off MIDIEvent_empty"
    by (simp_all add: is_note_on_def is_note_off_def MIDIEvent_empty_def)
  from run events kinds show ?thesis by simp
qed

subsection \<open>The clipper\<close>

text \<open>
  C8, as amended. For every input \<open>x\<close> other than NaN (the infinities included),
  \<^verbatim>\<open>Clip::process(x)\<close> lies in \<open>[-0.9, 0.9]\<close>; and \<^verbatim>\<open>Clip::process(x) = x\<close> whenever \<open>x\<close> lies in
  \<open>[-0.9, 0.9]\<close>.
\<close>

theorem Clip_bound:
  "(x \<noteq> NaN \<longrightarrow>
      fle (Fin (- (9 / 10))) (Clip_process x) \<and> fle (Clip_process x) (Fin (9 / 10))) \<and>
   (fle (Fin (- (9 / 10))) x \<and> fle x (Fin (9 / 10)) \<longrightarrow> Clip_process x = x)"
  by (cases x) (auto simp add: Clip_process_def fgt_def)

theorem Clip_bound_witness:
  "Fin 2 \<noteq> NaN \<and> Clip_process (Fin 2) = Fin (9 / 10) \<and>
   fle (Fin (- (9 / 10))) (Clip_process (Fin 2)) \<and> fle (Clip_process (Fin 2)) (Fin (9 / 10)) \<and>
   fle (Fin (- (9 / 10))) (Fin (1 / 2)) \<and> fle (Fin (1 / 2)) (Fin (9 / 10)) \<and>
   Clip_process (Fin (1 / 2)) = Fin (1 / 2)"
  using Clip_bound [of "Fin 2"] Clip_bound [of "Fin (1 / 2)"]
  by (simp add: Clip_process_def fgt_def)

text \<open>
  C8 as stated fails at NaN: both comparisons of \<^verbatim>\<open>Clip::process\<close> are false for it, so
  it is returned as it is, and NaN lies in no interval.
\<close>

theorem Clip_NaN_counterexample:
  "Clip_process NaN = NaN \<and>
   \<not> (fle (Fin (- (9 / 10))) (Clip_process NaN) \<and> fle (Clip_process NaN) (Fin (9 / 10)))"
  by (simp add: Clip_process_def fgt_def)

subsection \<open>The WAV writer\<close>

lemma upto_first: "t \<le> frames \<Longrightarrow> [t..frames] = t # [t + 1..frames]"
  by (simp add: upto_rec1)

lemma wav_frames_pulls:
  "wav_frames get t frames g =
     (case Output_pulls get [t..frames] g of
        (samples, g') \<Rightarrow> map_option (\<lambda>items. (items, g')) (encode_samples samples))"
proof (induction get t frames g rule: wav_frames.induct)
  case (1 get t frames g)
  show ?case
  proof (cases "t \<le> frames")
    case False
    then show ?thesis by (subst wav_frames.simps) simp
  next
    case True
    obtain sample g1 where p: "get t g = (sample, g1)" by (cases "get t g")
    obtain ss g2 where q: "Output_pulls get [t + 1..frames] g1 = (ss, g2)"
      by (cases "Output_pulls get [t + 1..frames] g1")
    show ?thesis
    proof (cases "quantize (Sample_left sample)")
      case None
      then show ?thesis
        using True p q by (subst wav_frames.simps) (simp add: upto_first)
    next
      case (Some l)
      note l = this
      show ?thesis
      proof (cases "quantize (Sample_right sample)")
        case None
        then show ?thesis
          using True p q l by (subst wav_frames.simps) (simp add: upto_first)
      next
        case (Some r)
        have IH: "wav_frames get (t + 1) frames g1 =
           map_option (\<lambda>items. (items, g2)) (encode_samples ss)"
          using "1.IH" [OF True p [symmetric] l Some] q by simp
        show ?thesis
          using True p q l Some
          by (subst wav_frames.simps) (simp add: upto_first IH split: option.splits)
      qed
    qed
  qed
qed

lemma wav_header_Some:
  assumes "0 \<le> frames" and "frames \<le> 536870902"
  shows "wav_header frames =
     Some [Tag ''RIFF'', U32 (word_of_int (36 + frames * 4)), Tag ''WAVE'',
       Tag ''fmt '', U32 16, U16 1, U16 2, U32 44100, U32 176400, U16 4, U16 16,
       Tag ''data'', U32 (word_of_int (frames * 4))]"
  using assms by (simp add: wav_header_def int_result_def)

lemma wav_header_overflow: "536870902 < frames \<Longrightarrow> wav_header frames = None"
  by (simp add: wav_header_def int_result_def)

lemma trunc_nonneg: "0 \<le> y \<Longrightarrow> trunc y = \<lfloor>y\<rfloor>"
  by (simp add: trunc_def)

lemma quantize_unit:
  assumes "0 \<le> x" and "x \<le> 1"
  shows "\<exists>q. quantize (Fin x) = Some q \<and>
    \<lfloor>x * 32767 + 1 / 2 - 1 / 512\<rfloor> \<le> q \<and> q \<le> \<lfloor>x * 32767 + 1 / 2 + 1 / 512\<rfloor>"
proof -
  define p where "p = rnd 24 149 (x * 32767)"
  have e0: "rnd 24 149 0 = 0" and e1: "rnd 24 149 32767 = 32767"
    using rnd_int [of 32767 24 149] by simp_all
  have "0 \<le> x * 32767" "x * 32767 \<le> 32767"
    using assms by simp_all
  then have p: "0 \<le> p" "p \<le> 32767"
    unfolding p_def using e0 e1 by (intro rnd_between [of 0 _ 32767]; simp)+
  have "\<bar>x * 32767\<bar> < 2 ^ 15"
    using assms by (simp add: abs_if)
  then have pe: "\<bar>p - x * 32767\<bar> \<le> 1 / 1024"
    unfolding p_def by (rule rnd_error_15)
  have m: "round32 (x * 32767) = Fin p"
    using p by (simp add: p_def [symmetric] round32_Fin)
  define y where "y = rnd 24 149 (p + 1 / 2)"
  have h0: "rnd 24 149 (1 / 2) = 1 / 2" and h1: "rnd 24 149 (65535 / 2) = 65535 / 2"
    using rnd_half_integer [of 1] rnd_half_integer [of 65535] by simp_all
  have "1 / 2 \<le> p + 1 / 2" "p + 1 / 2 \<le> 65535 / 2"
    using p by simp_all
  then have y: "1 / 2 \<le> y" "y \<le> 65535 / 2"
    unfolding y_def using h0 h1 by (intro rnd_between [of "1 / 2" _ "65535 / 2"]; simp)+
  have "\<bar>p + 1 / 2\<bar> < 2 ^ 15"
    using p by (simp add: abs_if)
  then have ye: "\<bar>y - (p + 1 / 2)\<bar> \<le> 1 / 1024"
    unfolding y_def by (rule rnd_error_15)
  have a: "round32 (p + 1 / 2) = Fin y"
    using y by (simp add: y_def [symmetric] round32_Fin)
  have fl: "0 \<le> \<lfloor>y\<rfloor>" "\<lfloor>y\<rfloor> < 32768"
    using y by (simp_all add: floor_less_iff)
  have q: "quantize (Fin x) = Some \<lfloor>y\<rfloor>"
    using y fl by (simp add: quantize_def m a trunc_nonneg)
  have "x * 32767 + 1 / 2 - 1 / 512 \<le> y" "y \<le> x * 32767 + 1 / 2 + 1 / 512"
    using pe ye by linarith+
  then have "\<lfloor>x * 32767 + 1 / 2 - 1 / 512\<rfloor> \<le> \<lfloor>y\<rfloor>" "\<lfloor>y\<rfloor> \<le> \<lfloor>x * 32767 + 1 / 2 + 1 / 512\<rfloor>"
    by (simp_all only: floor_mono)
  with q show ?thesis
    by blast
qed

lemma float_to_int_loud:
  assumes "32768 \<le> y"
  shows "float_to_int 16 (Fin y) = None"
proof -
  have "of_int 32768 \<le> y"
    using assms by simp
  then have "32768 \<le> \<lfloor>y\<rfloor>"
    by (simp only: le_floor_iff)
  moreover have "0 \<le> y"
    using assms by simp
  ultimately show ?thesis
    by (simp add: trunc_nonneg)
qed

lemma quantize_loud:
  assumes "65537 / 65536 \<le> x"
  shows "quantize (Fin x) = None"
proof -
  have "rnd 24 149 (65537 / 65536 * 32767) = 65535 / 2"
    using rnd_normal [of 24 140 "65537 / 65536 * 32767" 149] by (simp add: round_even_def)
  moreover have "65537 / 65536 * 32767 \<le> x * 32767"
    using assms by simp
  then have "rnd 24 149 (65537 / 65536 * 32767) \<le> rnd 24 149 (x * 32767)"
    by (intro rnd_mono) simp_all
  ultimately have p: "65535 / 2 \<le> rnd 24 149 (x * 32767)"
    by simp
  have loud: "round32 (p + 1 / 2) = PInf \<or>
      (\<exists>y. round32 (p + 1 / 2) = Fin y \<and> 32768 \<le> y)" if "65535 / 2 \<le> p" for p
  proof -
    have "rnd 24 149 32768 = 32768"
      using rnd_int [of 32768 24 149] by simp
    moreover have "rnd 24 149 32768 \<le> rnd 24 149 (p + 1 / 2)"
      using that by (intro rnd_mono) simp_all
    ultimately have "32768 \<le> rnd 24 149 (p + 1 / 2)"
      by simp
    then show ?thesis
      by (cases "p + 1 / 2" rule: round32_cases) simp_all
  qed
  show ?thesis
  proof (cases "x * 32767" rule: round32_cases)
    case 1
    then show ?thesis
      by (simp add: quantize_def add32_def)
  next
    case 2
    with p show ?thesis
      by simp
  next
    case 3
    from loud [OF p] show ?thesis
      by (auto simp: quantize_def 3 float_to_int_loud simp del: float_to_int.simps(1))
  qed
qed

lemma quantize_half: "quantize (Fin (1 / 2)) = Some 16384"
  using round32_exact [of 32767 1] round32_int [of 16384]
  by (simp add: quantize_def trunc_def)

lemma quantize_one: "quantize (Fin 1) = Some 32767"
  using round32_int [of 32767] round32_exact [of 65535 1]
  by (simp add: quantize_def trunc_def)

lemma quantize_zero: "quantize (Fin 0) = Some 0"
  using round32_int [of 0] round32_exact [of 1 1]
  by (simp add: quantize_def trunc_def)

lemma quantize_minus_one: "quantize (Fin (- 1)) = Some (- 32766)"
  using round32_int [of "- 32767"] round32_exact [of "- 65533" 1]
  by (simp add: quantize_def trunc_def)

lemma quantize_two: "quantize (Fin 2) = None"
  by (rule quantize_loud) simp

lemma quantize_last_bit: "quantize (Fin (16745471 / 33554432)) = Some 16353"
proof -
  have "mul32 (Fin (16745471 / 33554432)) (Fin 32767) = Fin (32705 / 2)"
    using round32_normal [of 139 "16745471 / 33554432 * 32767"] by (simp add: round_even_def)
  moreover have "add32 (Fin (32705 / 2)) (Fin (1 / 2)) = Fin 16353"
    using round32_int [of 16353] by simp
  ultimately show ?thesis
    by (simp add: quantize_def trunc_def)
qed

text \<open>
  C2, as amended. For a frame count \<open>frames\<close> from 0 to 536870902 (the greatest for which
  the \<^verbatim>\<open>int\<close> arithmetic of the header does not overflow), \<^verbatim>\<open>WAVOutput::run\<close> writes the
  header, pulls its input exactly at the logical times 1 to \<open>frames\<close>, in this order (none
  when \<open>frames = 0\<close>, and never time 0), and writes two \<^verbatim>\<open>int16_t\<close> per sample pulled. A
  channel value \<open>x\<close> in \<open>[0, 1]\<close> is written as an integer \<open>q\<close> that is \<open>x * 32767 + 0.5\<close>
  with its fraction dropped, up to the rounding of the product and of the sum in binary32,
  which is at most \<open>1 / 512\<close> in all: \<open>q\<close> is \<open>round (x * 32767)\<close> unless \<open>x * 32767\<close> is
  that near to the middle between two integers. Nothing is clamped: from
  \<open>x = 65537 / 65536\<close> on, the sum is 32768 or more and its conversion to \<^verbatim>\<open>int16_t\<close>, and
  with it the run, is undefined.
\<close>

theorem WAVOutput_run_pulls_and_quantizes:
  "(0 \<le> frames \<and> frames \<le> 536870902 \<longrightarrow>
      WAVOutput_run get frames g =
        (case Output_pulls get [1..frames] g of
           (samples, g') \<Rightarrow>
             map_option
               (\<lambda>items.
                  ([Tag ''RIFF'', U32 (word_of_int (36 + frames * 4)), Tag ''WAVE'',
                    Tag ''fmt '', U32 16, U16 1, U16 2, U32 44100, U32 176400, U16 4, U16 16,
                    Tag ''data'', U32 (word_of_int (frames * 4))] @ items, g'))
               (encode_samples samples))) \<and>
   0 \<notin> set [1..frames] \<and>
   (0 \<le> x \<and> x \<le> 1 \<longrightarrow>
      (\<exists>q. quantize (Fin x) = Some q \<and>
         \<lfloor>x * 32767 + 1 / 2 - 1 / 512\<rfloor> \<le> q \<and> q \<le> \<lfloor>x * 32767 + 1 / 2 + 1 / 512\<rfloor>)) \<and>
   (65537 / 65536 \<le> x \<longrightarrow> quantize (Fin x) = None)"
proof -
  have run: "WAVOutput_run get frames g =
        (case Output_pulls get [1..frames] g of
           (samples, g') \<Rightarrow>
             map_option
               (\<lambda>items.
                  ([Tag ''RIFF'', U32 (word_of_int (36 + frames * 4)), Tag ''WAVE'',
                    Tag ''fmt '', U32 16, U16 1, U16 2, U32 44100, U32 176400, U16 4, U16 16,
                    Tag ''data'', U32 (word_of_int (frames * 4))] @ items, g'))
               (encode_samples samples))"
    if "0 \<le> frames" "frames \<le> 536870902"
    using that
    by (simp add: WAVOutput_run_def wav_header_Some wav_frames_pulls
        split: prod.splits option.splits)
  have zero: "0 \<notin> set [1..frames]" by simp
  from run zero quantize_unit [of x] quantize_loud [of x]
  show ?thesis by blast
qed

theorem WAVOutput_run_pulls_and_quantizes_witness:
  "(0 :: int) \<le> 2 \<and> (2 :: int) \<le> 536870902 \<and>
   WAVOutput_run (\<lambda>t g. (Sample1 (Fin (real_of_int t / 2)), t # g)) 2 [] =
     Some ([Tag ''RIFF'', U32 44, Tag ''WAVE'', Tag ''fmt '', U32 16, U16 1, U16 2, U32 44100,
            U32 176400, U16 4, U16 16, Tag ''data'', U32 8] @
           [I16 16384, I16 16384, I16 32767, I16 32767], [2, 1]) \<and>
   (0 :: real) \<le> 1 / 2 \<and> (1 / 2 :: real) \<le> 1 \<and>
   (\<exists>q. quantize (Fin (1 / 2)) = Some q \<and> 16383 \<le> q \<and> q \<le> 16384) \<and>
   (65537 / 65536 :: real) \<le> 2 \<and> quantize (Fin 2) = None"
  using WAVOutput_run_pulls_and_quantizes
          [of 2 "\<lambda>t g. (Sample1 (Fin (real_of_int t / 2)), t # g)" "[]" "1 / 2"]
        WAVOutput_run_pulls_and_quantizes [of 0 "\<lambda>t g. (Sample0, g)" "()" 2]
  by (simp add: upto_first Sample1_def quantize_half quantize_one)

text \<open>
  C2 as stated fails on both counts. The sample \<open>-1\<close> is written as \<open>-32766\<close>, not as
  \<open>round (-32767) = -32767\<close>: adding 0.5 and dropping the fraction rounds to nearest only
  from 0 up. And the sample 2 is not written as the clamped 32767: its conversion to
  \<^verbatim>\<open>int16_t\<close> is undefined. Between 0 and 1, too, the integer written is not always
  \<open>round (x * 32767)\<close>: for \<open>x = 16745471 / 2 ^ 25\<close> the product, a little below 16352.5,
  is rounded to 16352.5 in binary32, and 16353 is written.
\<close>

theorem WAVOutput_run_round_clamp_counterexample:
  "WAVOutput_run (\<lambda>t g. (Sample1 (Fin (- 1)), g)) 1 () =
     Some ([Tag ''RIFF'', U32 40, Tag ''WAVE'', Tag ''fmt '', U32 16, U16 1, U16 2, U32 44100,
            U32 176400, U16 4, U16 16, Tag ''data'', U32 4] @
           [I16 (word_of_int (- 32766)), I16 (word_of_int (- 32766))], ()) \<and>
   sint (word_of_int (- 32766) :: 16 word) \<noteq> round (- 1 * 32767 :: real) \<and>
   WAVOutput_run (\<lambda>t g. (Sample1 (Fin 2), g)) 1 () = None \<and>
   quantize (Fin (16745471 / 33554432)) = Some 16353 \<and>
   round (16745471 / 33554432 * 32767 :: real) = 16352"
proof -
  have a: "WAVOutput_run (\<lambda>t g. (Sample1 (Fin (- 1)), g)) 1 () =
     Some ([Tag ''RIFF'', U32 40, Tag ''WAVE'', Tag ''fmt '', U32 16, U16 1, U16 2, U32 44100,
            U32 176400, U16 4, U16 16, Tag ''data'', U32 4] @
           [I16 (word_of_int (- 32766)), I16 (word_of_int (- 32766))], ())"
    by (simp add: WAVOutput_run_def wav_header_Some wav_frames_pulls upto_first Sample1_def
        quantize_minus_one)
  have b: "sint (word_of_int (- 32766) :: 16 word) \<noteq> round (- 1 * 32767 :: real)"
    by simp
  have c: "WAVOutput_run (\<lambda>t g. (Sample1 (Fin 2), g)) 1 () = None"
    by (simp add: WAVOutput_run_def wav_header_Some wav_frames_pulls upto_first Sample1_def
        quantize_two)
  have d: "round (16745471 / 33554432 * 32767 :: real) = 16352"
    by (simp add: round_def)
  from a b c d quantize_last_bit show ?thesis by blast
qed

text \<open>
  Four frames of silence: the header announces 52 and 16 bytes, eight zero samples follow,
  and the file is 60 bytes long.
\<close>

theorem WAVOutput_silence:
  "WAVOutput_run (\<lambda>t g. (Sample0, g)) 4 g =
     Some ([Tag ''RIFF'', U32 52, Tag ''WAVE'', Tag ''fmt '', U32 16, U16 1, U16 2, U32 44100,
            U32 176400, U16 4, U16 16, Tag ''data'', U32 16] @ replicate 8 (I16 0), g) \<and>
   sum_list (map wav_item_bytes
     ([Tag ''RIFF'', U32 52, Tag ''WAVE'', Tag ''fmt '', U32 16, U16 1, U16 2, U32 44100,
       U32 176400, U16 4, U16 16, Tag ''data'', U32 16] @ replicate 8 (I16 0))) = 60"
proof -
  have "[1..4] = [1, 2, 3, 4 :: int]"
    by (simp add: upto_rec1)
  then have run: "WAVOutput_run (\<lambda>t g. (Sample0, g)) 4 g =
     Some ([Tag ''RIFF'', U32 52, Tag ''WAVE'', Tag ''fmt '', U32 16, U16 1, U16 2, U32 44100,
            U32 176400, U16 4, U16 16, Tag ''data'', U32 16] @ replicate 8 (I16 0), g)"
    by (simp add: WAVOutput_run_def wav_frames_pulls Sample0_def quantize_zero wav_header_Some
        eval_nat_numeral)
  have size: "sum_list (map wav_item_bytes
     ([Tag ''RIFF'', U32 52, Tag ''WAVE'', Tag ''fmt '', U32 16, U16 1, U16 2, U32 44100,
       U32 176400, U16 4, U16 16, Tag ''data'', U32 16] @ replicate 8 (I16 0))) = 60"
    by (simp add: eval_nat_numeral)
  from run size show ?thesis by blast
qed

subsection \<open>The automation interpreter\<close>

lemma round32_DT [simp]: "round32 (1 / 44100) = Fin (6233059 / 274877906944)"
  using round32_normal [of 110 "1 / 44100"] by (simp add: round_even_def)

lemma DT32_eq: "DT32 = Fin (6233059 / 274877906944)"
  by (simp add: DT32_def)

lemma round32_second [simp]: "round32 (274877906944 / 6233059) = Fin 44100"
  using round32_normal [of 141 "274877906944 / 6233059"] by (simp add: round_even_def)

lemmas parse_simps =
  parse_number_def deref_def is_digit_def digit_value_def int_to_float_def NUL_def

lemma Automation_ticks_Suc_Some:
  "Automation_ticks n a = Some (v, a') \<Longrightarrow> Automation_ticks (Suc n) a = Automation_process a'"
  by simp

lemma zero_duration_first:
  "Automation_ticks 1 (Automation_init ''1/0 5'') =
     Some (Fin 0, \<lparr>Automation_automation = ''1/0 5'', Automation_cursor = ''5'',
        Automation_value = Fin 0, Automation_delta = PInf, Automation_t = 0\<rparr>)"
  by (simp add: Automation_init_def Automation_process_def int_decrement_def
       parse_simps DT32_eq div32_def trunc_def signed_inf_def Let_def)

lemma zero_duration_step:
  "- (2 ^ 31) < t \<Longrightarrow> t \<le> 0 \<Longrightarrow> v = Fin 0 \<or> v = PInf \<Longrightarrow>
   Automation_process \<lparr>Automation_automation = s, Automation_cursor = cs,
        Automation_value = v, Automation_delta = PInf, Automation_t = t\<rparr> =
     Some (PInf, \<lparr>Automation_automation = s, Automation_cursor = cs,
        Automation_value = PInf, Automation_delta = PInf, Automation_t = t - 1\<rparr>)"
  by (auto simp add: Automation_process_def int_decrement_def add32_def Let_def)

lemma zero_duration_stuck:
  "1 \<le> n \<Longrightarrow> n \<le> 2 ^ 31 \<Longrightarrow>
   Automation_ticks (Suc n) (Automation_init ''1/0 5'') =
     Some (PInf, \<lparr>Automation_automation = ''1/0 5'', Automation_cursor = ''5'',
        Automation_value = PInf, Automation_delta = PInf, Automation_t = - int n\<rparr>)"
proof (induction n)
  case 0
  then show ?case by simp
next
  case (Suc n)
  show ?case
  proof (cases "n = 0")
    case True
    have "Automation_ticks (Suc 1) (Automation_init ''1/0 5'') =
      Automation_process \<lparr>Automation_automation = ''1/0 5'', Automation_cursor = ''5'',
        Automation_value = Fin 0, Automation_delta = PInf, Automation_t = 0\<rparr>"
      by (rule Automation_ticks_Suc_Some [OF zero_duration_first])
    then show ?thesis
      using True by (simp add: zero_duration_step del: Automation_ticks.simps)
  next
    case False
    with Suc.prems have n: "1 \<le> n" "n \<le> 2 ^ 31" "int n < 2 ^ 31" by simp_all
    have "Automation_ticks (Suc (Suc n)) (Automation_init ''1/0 5'') =
      Automation_process \<lparr>Automation_automation = ''1/0 5'', Automation_cursor = ''5'',
        Automation_value = PInf, Automation_delta = PInf, Automation_t = - int n\<rparr>"
      by (rule Automation_ticks_Suc_Some [OF Suc.IH [OF n(1,2)]])
    also have "\<dots> = Some (PInf, \<lparr>Automation_automation = ''1/0 5'', Automation_cursor = ''5'',
        Automation_value = PInf, Automation_delta = PInf, Automation_t = - int n - 1\<rparr>)"
      using n by (intro zero_duration_step) simp_all
    finally show ?thesis by simp
  qed
qed

text \<open>
  C3 does not hold of the code. On the script \<^verbatim>\<open>"1/0 5"\<close> the first call of \<^verbatim>\<open>process\<close> parses
  the ramp \<^verbatim>\<open>1/0\<close>, sets \<open>t = 0\<close> and divides \<open>1 - 0\<close> by it: \<open>delta\<close> is \<open>+\<infinity>\<close>, and the call
  returns 0, not the target 1. Every later call (the next \<open>2 ^ 31\<close> of them at least)
  returns \<open>+\<infinity>\<close>, and the cursor stays before the token \<^verbatim>\<open>5\<close>, because \<open>t\<close> is counted
  down from 0 and does not come back to 0.
\<close>

theorem Automation_zero_duration_ramp:
  "Automation_ticks 1 (Automation_init ''1/0 5'') =
     Some (Fin 0, \<lparr>Automation_automation = ''1/0 5'', Automation_cursor = ''5'',
        Automation_value = Fin 0, Automation_delta = PInf, Automation_t = 0\<rparr>) \<and>
   (1 \<le> n \<and> n \<le> 2 ^ 31 \<longrightarrow>
      Automation_ticks (Suc n) (Automation_init ''1/0 5'') =
        Some (PInf, \<lparr>Automation_automation = ''1/0 5'', Automation_cursor = ''5'',
          Automation_value = PInf, Automation_delta = PInf, Automation_t = - int n\<rparr>))"
  using zero_duration_first zero_duration_stuck [of n] by blast

theorem Automation_zero_duration_ramp_witness:
  "(1 :: nat) \<le> 1 \<and> (1 :: nat) \<le> 2 ^ 31 \<and>
   Automation_ticks (Suc 1) (Automation_init ''1/0 5'') =
     Some (PInf, \<lparr>Automation_automation = ''1/0 5'', Automation_cursor = ''5'',
       Automation_value = PInf, Automation_delta = PInf, Automation_t = - 1\<rparr>)"
  using Automation_zero_duration_ramp [of 1] by (simp del: Automation_ticks.simps)

lemma ramp_first:
  "Automation_ticks 1 (Automation_init ''0 1/1'') =
     Some (Fin 0, \<lparr>Automation_automation = ''0 1/1'', Automation_cursor = ''1/1'',
        Automation_value = Fin 0, Automation_delta = Fin 0, Automation_t = 1\<rparr>)"
  by (simp add: Automation_init_def Automation_process_def int_decrement_def
       parse_simps trunc_def Let_def)

lemma ramp_second:
  "Automation_ticks (Suc 1) (Automation_init ''0 1/1'') =
     Some (Fin 0, \<lparr>Automation_automation = ''0 1/1'', Automation_cursor = [],
        Automation_value = Fin 0, Automation_delta = Fin (6233059 / 274877906944),
        Automation_t = 44100\<rparr>)"
  unfolding Automation_ticks_Suc_Some [OF ramp_first]
  by (simp add: Automation_process_def int_decrement_def
       parse_simps DT32_eq trunc_def Let_def)

lemma ramp_step:
  assumes "0 < t" "t \<le> 44100" "\<bar>v + d\<bar> < 2"
  shows "Automation_process \<lparr>Automation_automation = s, Automation_cursor = [],
        Automation_value = Fin v, Automation_delta = Fin d, Automation_t = t\<rparr> =
     Some (Fin (rnd 24 149 (v + d)), \<lparr>Automation_automation = s, Automation_cursor = [],
        Automation_value = Fin (rnd 24 149 (v + d)),
        Automation_delta = (if t = 1 then Fin 0 else Fin d),
        Automation_t = t - 1\<rparr>)"
  using assms
  by (simp add: Automation_process_def int_decrement_def deref_def Let_def round32_small)

lemma ramp_ticks:
  "k \<le> 44100 \<Longrightarrow>
   \<exists>v. Automation_ticks (k + 2) (Automation_init ''0 1/1'') =
     Some (Fin v, \<lparr>Automation_automation = ''0 1/1'', Automation_cursor = [],
        Automation_value = Fin v,
        Automation_delta = (if k = 44100 then Fin 0 else Fin (6233059 / 274877906944)),
        Automation_t = 44100 - int k\<rparr>) \<and>
     \<bar>v - real k / 44100\<bar> \<le> real k / 16000000 \<and> rnd 24 149 v = v"
proof (induction k)
  case 0
  have "0 + 2 = Suc 1" by simp
  then show ?case using ramp_second by (simp del: Automation_ticks.simps)
next
  case (Suc k)
  then have k: "k < 44100" by simp
  with Suc.IH obtain v where
    IH: "Automation_ticks (k + 2) (Automation_init ''0 1/1'') =
     Some (Fin v, \<lparr>Automation_automation = ''0 1/1'', Automation_cursor = [],
        Automation_value = Fin v,
        Automation_delta = Fin (6233059 / 274877906944),
        Automation_t = 44100 - int k\<rparr>)"
    and v: "\<bar>v - real k / 44100\<bar> \<le> real k / 16000000"
    by auto
  define d :: real where "d = 6233059 / 274877906944"
  define v' where "v' = rnd 24 149 (v + d)"
  have kr: "real k < 44100"
    using k by simp
  have "real k / 44100 < 1" "real k / 16000000 < 1 / 100" "0 \<le> real k / 44100"
    using kr by simp_all
  moreover have "0 < d" "d < 1 / 100"
    by (simp_all add: d_def)
  ultimately have small: "\<bar>v + d\<bar> < 2"
    using v by linarith
  have "Automation_ticks (Suc k + 2) (Automation_init ''0 1/1'') =
      Automation_process \<lparr>Automation_automation = ''0 1/1'', Automation_cursor = [],
        Automation_value = Fin v, Automation_delta = Fin d,
        Automation_t = 44100 - int k\<rparr>"
    using Automation_ticks_Suc_Some [OF IH] by (simp add: d_def del: Automation_ticks.simps)
  also have "\<dots> =
      Some (Fin v',
        \<lparr>Automation_automation = ''0 1/1'', Automation_cursor = [],
         Automation_value = Fin v',
         Automation_delta = (if 44100 - int k = 1 then Fin 0 else Fin d),
         Automation_t = 44100 - int k - 1\<rparr>)"
    unfolding v'_def using k small by (intro ramp_step) simp_all
  also have "\<dots> =
      Some (Fin v',
        \<lparr>Automation_automation = ''0 1/1'', Automation_cursor = [],
         Automation_value = Fin v',
         Automation_delta = (if Suc k = 44100 then Fin 0 else Fin (6233059 / 274877906944)),
         Automation_t = 44100 - int (Suc k)\<rparr>)"
    using k by (auto simp: d_def)
  finally have run: "Automation_ticks (Suc k + 2) (Automation_init ''0 1/1'') =
      Some (Fin v',
        \<lparr>Automation_automation = ''0 1/1'', Automation_cursor = [],
         Automation_value = Fin v',
         Automation_delta = (if Suc k = 44100 then Fin 0 else Fin (6233059 / 274877906944)),
         Automation_t = 44100 - int (Suc k)\<rparr>)" .
  have "\<bar>v' - (v + d)\<bar> \<le> 1 / 2 ^ 24"
    unfolding v'_def using small by (rule rnd_error_2)
  moreover have "\<bar>d - 1 / 44100\<bar> \<le> 1 / 10 ^ 12"
    by (simp add: d_def)
  moreover have "real (Suc k) / 44100 = real k / 44100 + 1 / 44100"
    "real (Suc k) / 16000000 = real k / 16000000 + 1 / 16000000"
    by (simp_all add: add_divide_distrib)
  moreover have "(1 / 2 ^ 24 + 1 / 10 ^ 12 :: real) \<le> 1 / 16000000"
    by simp
  ultimately have err: "\<bar>v' - real (Suc k) / 44100\<bar> \<le> real (Suc k) / 16000000"
    using v by linarith
  have "rnd 24 149 v' = v'"
    unfolding v'_def by (rule rnd_idem) simp
  with run err show ?case
    by blast
qed

lemma hold_step:
  assumes "rnd 24 149 v = v" and "\<bar>v\<bar> < 2" and "- (2 ^ 31) < t"
  shows "Automation_process \<lparr>Automation_automation = s, Automation_cursor = [],
        Automation_value = Fin v, Automation_delta = Fin 0, Automation_t = t\<rparr> =
     Some (Fin v, \<lparr>Automation_automation = s, Automation_cursor = [],
        Automation_value = Fin v, Automation_delta = Fin 0, Automation_t = t - 1\<rparr>)"
  using assms
  by (simp add: Automation_process_def int_decrement_def deref_def Let_def round32_small)

lemma hold_ticks:
  assumes "Automation_ticks 44102 (Automation_init ''0 1/1'') =
     Some (Fin v, \<lparr>Automation_automation = ''0 1/1'', Automation_cursor = [],
        Automation_value = Fin v, Automation_delta = Fin 0, Automation_t = 0\<rparr>)"
    and "rnd 24 149 v = v" and "\<bar>v\<bar> < 2"
  shows "j \<le> 2 ^ 31 \<Longrightarrow>
    Automation_ticks (j + 44102) (Automation_init ''0 1/1'') =
     Some (Fin v, \<lparr>Automation_automation = ''0 1/1'', Automation_cursor = [],
        Automation_value = Fin v, Automation_delta = Fin 0, Automation_t = - int j\<rparr>)"
proof (induction j)
  case 0
  show ?case using assms(1) by (simp del: Automation_ticks.simps)
next
  case (Suc j)
  then have j: "int j < 2 ^ 31"
    by simp
  have "Automation_ticks (j + 44102) (Automation_init ''0 1/1'') =
     Some (Fin v, \<lparr>Automation_automation = ''0 1/1'', Automation_cursor = [],
        Automation_value = Fin v, Automation_delta = Fin 0, Automation_t = - int j\<rparr>)"
    using Suc by simp
  from Automation_ticks_Suc_Some [OF this] show ?case
    using assms(2, 3) j by (simp add: hold_step del: Automation_ticks.simps)
qed

lemma ramp_at:
  assumes "2 \<le> n" "n \<le> 44102"
  shows "\<exists>v. Automation_ticks n (Automation_init ''0 1/1'') =
     Some (Fin v, \<lparr>Automation_automation = ''0 1/1'', Automation_cursor = [],
        Automation_value = Fin v,
        Automation_delta = (if n = 44102 then Fin 0 else Fin (6233059 / 274877906944)),
        Automation_t = 44102 - int n\<rparr>) \<and>
     \<bar>v - (real n - 2) / 44100\<bar> \<le> (real n - 2) / 16000000 \<and> rnd 24 149 v = v"
proof -
  from assms have eq: "n - 2 + 2 = n" and le: "n - 2 \<le> 44100" by simp_all
  from assms have r: "real (n - 2) = real n - 2" "44100 - int (n - 2) = 44102 - int n"
    "n - 2 = 44100 \<longleftrightarrow> n = 44102" by auto
  from ramp_ticks [OF le] show ?thesis
    unfolding eq r .
qed

lemma hold_at:
  assumes "44102 \<le> n" and "n \<le> 44102 + 2 ^ 31"
  shows "map_option fst (Automation_ticks n (Automation_init ''0 1/1'')) =
    map_option fst (Automation_ticks 44102 (Automation_init ''0 1/1''))"
proof -
  from ramp_at [of 44102] obtain v where
    v: "Automation_ticks 44102 (Automation_init ''0 1/1'') =
     Some (Fin v, \<lparr>Automation_automation = ''0 1/1'', Automation_cursor = [],
        Automation_value = Fin v, Automation_delta = Fin 0, Automation_t = 0\<rparr>)"
    and e: "\<bar>v - (44102 - 2) / 44100\<bar> \<le> (44102 - 2) / 16000000" and r: "rnd 24 149 v = v"
    by (auto simp del: Automation_ticks.simps)
  have "((44102 - 2) / 44100 :: real) = 1" "((44102 - 2) / 16000000 :: real) < 1 / 100"
    by simp_all
  with e have small: "\<bar>v\<bar> < 2"
    by linarith
  from assms have eq: "n - 44102 + 44102 = n" and le: "n - 44102 \<le> 2 ^ 31" by simp_all
  from hold_ticks [OF v r small le] show ?thesis
    unfolding eq by (simp only: v option.map fst_conv)
qed

text \<open>
  C4, as amended. On the script \<^verbatim>\<open>"0 1/1"\<close> \<^verbatim>\<open>process\<close> returns 0 at the ticks 1 and 2 (tick 1
  reads the value \<^verbatim>\<open>0\<close>; tick 2 reads the ramp \<^verbatim>\<open>1/1\<close>, which sets 44100 ticks and the step
  but changes no value yet). The step is \<open>1 / 44100\<close> rounded to binary32, and so is each
  sum: at a tick \<open>n\<close> from 2 to 44102 the value is \<open>(n - 2) / 44100\<close> up to the rounding
  accumulated, at most \<open>(n - 2) / 16000000\<close>. The value of tick 44102, within 0.0028 of 1,
  is returned at every tick after that, as far as \<open>t\<close> can be counted down (\<open>2 ^ 31\<close> more
  ticks).
\<close>

theorem Automation_ramp_0_1:
  "(n = 1 \<or> n = 2 \<longrightarrow>
      map_option fst (Automation_ticks n (Automation_init ''0 1/1'')) = Some (Fin 0)) \<and>
   (2 \<le> n \<and> n \<le> 44102 \<longrightarrow>
      (\<exists>v. map_option fst (Automation_ticks n (Automation_init ''0 1/1'')) = Some (Fin v) \<and>
         \<bar>v - (real n - 2) / 44100\<bar> \<le> (real n - 2) / 16000000)) \<and>
   (44102 \<le> n \<and> n \<le> 44102 + 2 ^ 31 \<longrightarrow>
      map_option fst (Automation_ticks n (Automation_init ''0 1/1'')) =
        map_option fst (Automation_ticks 44102 (Automation_init ''0 1/1'')))"
proof -
  have a: "map_option fst (Automation_ticks 1 (Automation_init ''0 1/1'')) = Some (Fin 0)"
    by (simp only: ramp_first option.map fst_conv)
  have b: "\<exists>v. map_option fst (Automation_ticks n (Automation_init ''0 1/1'')) = Some (Fin v) \<and>
         \<bar>v - (real n - 2) / 44100\<bar> \<le> (real n - 2) / 16000000" if "2 \<le> n" "n \<le> 44102" for n
    using ramp_at [OF that] by (auto simp del: Automation_ticks.simps)
  have b2: "map_option fst (Automation_ticks 2 (Automation_init ''0 1/1'')) = Some (Fin 0)"
    using ramp_second by (simp add: numeral_2_eq_2 del: Automation_ticks.simps)
  from a b2 b [of n] hold_at [of n] show ?thesis by blast
qed

theorem Automation_ramp_0_1_witness:
  "map_option fst (Automation_ticks 2 (Automation_init ''0 1/1'')) = Some (Fin 0) \<and>
   (\<exists>v. map_option fst (Automation_ticks 22052 (Automation_init ''0 1/1'')) = Some (Fin v) \<and>
      \<bar>v - 1 / 2\<bar> \<le> 2205 / 1600000) \<and>
   (\<exists>v. map_option fst (Automation_ticks 44102 (Automation_init ''0 1/1'')) = Some (Fin v) \<and>
      \<bar>v - 1\<bar> \<le> 441 / 160000) \<and>
   map_option fst (Automation_ticks 50000 (Automation_init ''0 1/1'')) =
     map_option fst (Automation_ticks 44102 (Automation_init ''0 1/1''))"
  using Automation_ramp_0_1 [of 2] Automation_ramp_0_1 [of 22052] Automation_ramp_0_1 [of 44102]
    Automation_ramp_0_1 [of 50000]
  by (simp del: Automation_ticks.simps)

text \<open>
  C4 as stated fails from tick 2 on: tick 2 returns 0 where \<open>(2 - 1) / 44100\<close> is claimed, and
  tick 3 returns the step, \<open>1 / 44100\<close> rounded to binary32, where \<open>(3 - 1) / 44100\<close> is
  claimed. The ramp runs one tick later than claimed.
\<close>

theorem Automation_ramp_tick_counterexample:
  "map_option fst (Automation_ticks 2 (Automation_init ''0 1/1'')) = Some (Fin 0) \<and>
   Fin 0 \<noteq> Fin ((2 - 1) / 44100) \<and>
   map_option fst (Automation_ticks 3 (Automation_init ''0 1/1'')) =
     Some (Fin (6233059 / 274877906944)) \<and>
   Fin (6233059 / 274877906944) \<noteq> Fin ((3 - 1) / 44100)"
proof -
  have two: "map_option fst (Automation_ticks 2 (Automation_init ''0 1/1'')) = Some (Fin 0)"
    using ramp_second by (simp add: numeral_2_eq_2 del: Automation_ticks.simps)
  have "Automation_ticks (Suc (Suc 1)) (Automation_init ''0 1/1'') =
      Automation_process \<lparr>Automation_automation = ''0 1/1'', Automation_cursor = [],
        Automation_value = Fin 0, Automation_delta = Fin (6233059 / 274877906944),
        Automation_t = 44100\<rparr>"
    by (rule Automation_ticks_Suc_Some [OF ramp_second])
  also have "\<dots> = Some (Fin (rnd 24 149 (0 + 6233059 / 274877906944)),
       \<lparr>Automation_automation = ''0 1/1'', Automation_cursor = [],
        Automation_value = Fin (rnd 24 149 (0 + 6233059 / 274877906944)),
        Automation_delta = (if (44100 :: int) = 1 then Fin 0 else Fin (6233059 / 274877906944)),
        Automation_t = 44100 - 1\<rparr>)"
    by (intro ramp_step) simp_all
  also have "rnd 24 149 (0 + 6233059 / 274877906944) = 6233059 / 274877906944"
    using rnd_dyadic [of 6233059 24 38 149] by simp
  finally have three:
    "map_option fst (Automation_ticks 3 (Automation_init ''0 1/1'')) =
       Some (Fin (6233059 / 274877906944))"
    by (simp add: numeral_3_eq_3 del: Automation_ticks.simps)
  from two three show ?thesis
    by simp
qed

subsection \<open>The oscillators\<close>

lemma Saw_process_Fin:
  "Saw_process (Fin f) \<lparr>Saw_value = Fin v\<rparr> =
     (let w = v + f * (2 / 44100); w' = (if 1 < w then w - 2 else w)
      in (Fin w', \<lparr>Saw_value = Fin w'\<rparr>))"
  by (simp add: Saw_process_def DT_eq fgt_def fsub_def Let_def)

lemma in_unit_Fin: "in_unit x \<longleftrightarrow> (\<exists>v. x = Fin v \<and> - 1 \<le> v \<and> v \<le> 1)"
  by (cases x) (auto simp: in_unit_def)

lemma Saw_run_bounded:
  "\<forall>f \<in> set fs. flt (Fin 0) f \<and> flt f (Fin 44100) \<Longrightarrow> in_unit (Saw_value s) \<Longrightarrow>
   \<forall>v \<in> set (Saw_run fs s). in_unit v"
proof (induction fs arbitrary: s)
  case Nil
  then show ?case by simp
next
  case (Cons f fs)
  from Cons.prems(1) obtain y where f: "f = Fin y" and y: "0 < y" "y < 44100"
    by (cases f) auto
  from Cons.prems(2) obtain v where s: "s = \<lparr>Saw_value = Fin v\<rparr>" and v: "- 1 \<le> v" "v \<le> 1"
    by (cases s) (auto simp: in_unit_Fin)
  have inc: "0 < y * (2 / 44100)" "y * (2 / 44100) < 2"
    using y by simp_all
  define w where "w = v + y * (2 / 44100)"
  define w' where "w' = (if 1 < w then w - 2 else w)"
  have w': "- 1 \<le> w'" "w' \<le> 1"
    using v inc by (auto simp: w'_def w_def)
  have step: "Saw_process f s = (Fin w', \<lparr>Saw_value = Fin w'\<rparr>)"
    by (simp add: f s Saw_process_Fin w'_def w_def Let_def)
  have "\<forall>v \<in> set (Saw_run fs \<lparr>Saw_value = Fin w'\<rparr>). in_unit v"
    using Cons.prems(1) w' by (intro Cons.IH) (simp_all add: in_unit_Fin)
  then show ?case
    using w' by (simp add: step in_unit_Fin)
qed

lemma Square_run_exact:
  "\<forall>v \<in> set (Square_run fs s). v = Fin 1 \<or> v = Fin (- 1)"
  by (induction fs arbitrary: s) (auto simp: Square_process_def Let_def)

text \<open>
  C7. Started from their initial state and called with any sequence of frequencies, each
  greater than 0 and below the sample rate 44100, \<^verbatim>\<open>Saw::process\<close> returns only values in
  \<open>[-1, 1]\<close> and \<^verbatim>\<open>Square::process\<close> only the values 1 and \<open>-1\<close> (arithmetic on the numbers
  being exact).
\<close>

theorem Saw_Square_range:
  "(\<forall>f \<in> set fs. flt (Fin 0) f \<and> flt f (Fin 44100)) \<longrightarrow>
     (\<forall>v \<in> set (Saw_run fs Saw_init). fle (Fin (- 1)) v \<and> fle v (Fin 1)) \<and>
     (\<forall>v \<in> set (Square_run fs Square_init). v = Fin 1 \<or> v = Fin (- 1))"
proof -
  have "\<forall>v \<in> set (Saw_run fs Saw_init). fle (Fin (- 1)) v \<and> fle v (Fin 1)"
    if "\<forall>f \<in> set fs. flt (Fin 0) f \<and> flt f (Fin 44100)"
    using Saw_run_bounded [OF that, of Saw_init] by (simp add: Saw_init_def in_unit_def)
  then show ?thesis using Square_run_exact by blast
qed

theorem Saw_Square_range_witness:
  "flt (Fin 0) (Fin 22050) \<and> flt (Fin 22050) (Fin 44100) \<and>
   Saw_run [Fin 22050, Fin 22050] Saw_init = [Fin 1, Fin 0] \<and>
   fle (Fin (- 1)) (Fin 1) \<and> fle (Fin 1) (Fin 1) \<and> fle (Fin (- 1)) (Fin 0) \<and> fle (Fin 0) (Fin 1) \<and>
   Square_run [Fin 22050, Fin 22050] Square_init = [Fin (- 1), Fin 1]"
  using Saw_Square_range [of "[Fin 22050, Fin 22050]"]
  by (simp add: Saw_process_def Saw_init_def Square_process_def Square_init_def DT_eq fgt_def
      fsub_def Let_def)

subsection \<open>A node that has not been pulled yet\<close>

lemma Node_first_pull:
  "Node_get produce 0 (Node_init d s) = (d, Node_init d s)"
  by (simp add: Node_get_def Node_init_def)

lemma Node_first_pull_later:
  "t \<noteq> 0 \<Longrightarrow>
   Node_get produce t (Node_init d s) =
     (fst (produce t s),
      \<lparr>Node_value = fst (produce t s), Node_t = t, Node_self = snd (produce t s)\<rparr>)"
  by (simp add: Node_get_def Node_init_def split: prod.splits)

lemma Node2_first_pull_zeroed:
  "Node2_get pull process 0 (Node2_init v0 0 p g) = (v0, Node2_init v0 0 p g)"
  by (simp add: Node2_get_def Node2_init_def)

text \<open>
  A \<^verbatim>\<open>Node\<close> that has just been constructed holds the time stamp 0. Its first pull at time
  0 returns the value-initialised cache and leaves the node as it is, \<^verbatim>\<open>produce\<close> not
  called; a first pull at any other time calls \<^verbatim>\<open>produce\<close> once.
\<close>

theorem Node_fresh_first_pull:
  "Node_t (Node_init d s) = 0 \<and>
   Node_get (counted produce) 0 (Node_init d (c, s)) = (d, Node_init d (c, s)) \<and>
   Node_calls (snd (Node_get (counted produce) t (Node_init d (c, s)))) =
     (if t = 0 then c else Suc c)"
  by (simp add: Node_get_def Node_init_def Node_calls_def counted_def split: prod.splits)

text \<open>
  C10 holds of \<^verbatim>\<open>Node\<close> (\<open>Node_first_pull\<close>) and does not hold of \<^verbatim>\<open>Node2\<close>, which has no
  initialiser for its time stamp. A \<^verbatim>\<open>Node2\<close> whose storage held the time stamp 5 runs its
  processing routine at the first pull at time 0 (the call counter goes from 0 to 1) and
  returns the computed 1, not the cached 0.
\<close>

theorem Node2_first_pull_uninitialised:
  "Node2_get (\<lambda>t g. ((), g)) (counted (\<lambda>args s. (Fin 1, s))) 0 (Node2_init (Fin 0) 5 (0, ()) ()) =
     (Fin 1, Node2_init (Fin 1) 0 (1, ()) ())"
  by (simp add: Node2_get_def Node2_init_def counted_def)

subsection \<open>The envelope\<close>

lemma empty_kinds: "\<not> is_note_on MIDIEvent_empty" "\<not> is_note_off MIDIEvent_empty"
  by (simp_all add: is_note_on_def is_note_off_def MIDIEvent_empty_def)

lemma ADSR_event_empty: "ADSR_event MIDIEvent_empty s = s"
  by (simp add: ADSR_event_def empty_kinds)

lemma ADSR_rest:
  "ADSR_process MIDIEvent_empty attack decay sustain release ADSR_init = (Fin 0, ADSR_init)"
  by (simp add: ADSR_process_def ADSR_event_empty ADSR_step_def ADSR_init_def)

lemma ADSR_run_rest:
  "ADSR_run (replicate n MIDIEvent_empty) attack decay sustain release ADSR_init = ADSR_init"
  by (induction n) (simp_all add: ADSR_rest)

lemma ADSR_run_snoc:
  "ADSR_run (es @ [e]) attack decay sustain release s =
     snd (ADSR_process e attack decay sustain release (ADSR_run es attack decay sustain release s))"
  by (induction es arbitrary: s) simp_all

lemma replicate_snoc: "x # replicate (Suc k) y = (x # replicate k y) @ [y]"
  by (simp add: replicate_append_same)

lemma ADSR_run_Suc:
  "ADSR_run (e # replicate (Suc k) MIDIEvent_empty) attack decay sustain release s =
     ADSR_step attack decay sustain release
       (ADSR_run (e # replicate k MIDIEvent_empty) attack decay sustain release s)"
  unfolding replicate_snoc ADSR_run_snoc
  by (simp add: ADSR_process_def ADSR_event_empty Let_def)

lemma ADSR_legato:
  "is_note_on e \<Longrightarrow> ADSR_note s \<noteq> 0 \<Longrightarrow> ADSR_event e s = s\<lparr>ADSR_note := MIDIEvent_data1 e\<rparr>"
  by (simp add: ADSR_event_def)

lemma ADSR_step_note:
  "ADSR_step attack decay sustain release (s\<lparr>ADSR_note := k\<rparr>) =
     (ADSR_step attack decay sustain release s)\<lparr>ADSR_note := k\<rparr>"
  by (simp add: ADSR_step_def Let_def split: State.splits)

lemma note_on_kinds:
  "is_note_on (create_note_on note velocity 0)" "\<not> is_note_off (create_note_on note velocity 0)"
  by (simp_all add: create_note_on_def is_note_on_def is_note_off_def)

lemma note_on_data1: "MIDIEvent_data1 (create_note_on note velocity channel) = note"
  by (simp add: create_note_on_def)

lemma ADSR_event_note_on:
  "is_note_on e \<Longrightarrow> ADSR_event e s =
     s\<lparr>ADSR_note := MIDIEvent_data1 e,
       ADSR_state := (if ADSR_note s = 0 then Attack else ADSR_state s)\<rparr>"
  by (simp add: ADSR_event_def Let_def)

lemma ADSR_first_call:
  "is_note_on e \<Longrightarrow>
   ADSR_run (e # replicate 0 MIDIEvent_empty) attack decay sustain release ADSR_init =
     ADSR_step attack decay sustain release
       \<lparr>ADSR_state = Attack, ADSR_value = Fin 0, ADSR_note = MIDIEvent_data1 e\<rparr>"
  by (simp add: ADSR_process_def ADSR_event_note_on ADSR_init_def Let_def)

lemma ADSR_attack_step:
  "ADSR_step attack decay sustain release \<lparr>ADSR_state = Attack, ADSR_value = Fin v, ADSR_note = k\<rparr> =
    (if fge (add32 (Fin v) (mul32 (div32 (Fin 1000) attack) DT32)) (Fin 1)
     then \<lparr>ADSR_state = Decay, ADSR_value = Fin 1, ADSR_note = k\<rparr>
     else \<lparr>ADSR_state = Attack,
           ADSR_value = add32 (Fin v) (mul32 (div32 (Fin 1000) attack) DT32), ADSR_note = k\<rparr>)"
  by (simp add: ADSR_step_def Let_def)

text \<open>
  The increment \<^verbatim>\<open>1000.f / attack * DT\<close> of an attack of at most 190000 milliseconds is at
  least \<open>2 ^ -23\<close> (or an infinity, for an attack so short that the quotient overflows).
\<close>

lemma round32_nonneg_cases:
  assumes "0 \<le> x"
  obtains "round32 x = PInf" | "round32 x = Fin (rnd 24 149 x)" "0 \<le> rnd 24 149 x"
proof (cases x rule: round32_cases)
  case 1
  then show ?thesis
    using that(1) by simp
next
  case 2
  moreover have "0 \<le> rnd 24 149 x"
    using assms by (rule rnd_nonneg)
  ultimately show ?thesis
    by simp
next
  case 3
  then show ?thesis
    using that(2) assms by (simp add: rnd_nonneg)
qed

lemma ADSR_increment_range:
  assumes "0 < a" and "a \<le> 190000"
  shows "mul32 (div32 (Fin 1000) (Fin a)) DT32 = PInf \<or>
    (\<exists>i. mul32 (div32 (Fin 1000) (Fin a)) DT32 = Fin i \<and> 1 / 2 ^ 23 \<le> i)"
proof -
  have d: "div32 (Fin 1000) (Fin a) = round32 (1000 / a)"
    using assms by simp
  have "0 \<le> 1000 / a"
    using assms by simp
  then show ?thesis
  proof (cases rule: round32_nonneg_cases)
    case 1
    then show ?thesis
      by (simp add: d mul32_def DT32_eq signed_inf_def)
  next
    case 2
    define q where "q = rnd 24 149 (1000 / a)"
    have "1 / 190 \<le> 1000 / a"
      using assms by (simp add: field_simps)
    then have "rnd 24 149 (1 / 190) \<le> q"
      unfolding q_def by (intro rnd_mono) simp_all
    moreover have "rnd 24 149 (1 / 190) = 5651273 / 1073741824"
      using rnd_normal [of 24 118 "1 / 190" 149] by (simp add: round_even_def)
    ultimately have q: "5651273 / 1073741824 \<le> q"
      by simp
    define d :: real where "d = 6233059 / 274877906944"
    have m: "mul32 (div32 (Fin 1000) (Fin a)) DT32 = round32 (q * d)"
      by (simp add: \<open>div32 (Fin 1000) (Fin a) = round32 (1000 / a)\<close> 2 q_def DT32_eq d_def)
    have "0 \<le> q * d"
      using q by (simp add: d_def)
    then show ?thesis
    proof (cases rule: round32_nonneg_cases)
      case 1
      then show ?thesis
        by (simp add: m)
    next
      case 2
      have "5651273 / 1073741824 * d \<le> q * d"
        using q by (intro mult_right_mono) (simp_all add: d_def)
      then have "rnd 24 149 (5651273 / 1073741824 * d) \<le> rnd 24 149 (q * d)"
        by (intro rnd_mono) simp_all
      moreover have "rnd 24 149 (5651273 / 1073741824 * d) = 8398227 / 70368744177664"
        unfolding d_def
        using rnd_normal [of 24 103 "5651273 / 1073741824 * (6233059 / 274877906944)" 149]
        by (simp add: round_even_def)
      ultimately have "1 / 2 ^ 23 \<le> rnd 24 149 (q * d)"
        by simp
      then show ?thesis
        by (simp add: m 2)
    qed
  qed
qed

text \<open>
  One step of the attack from a value in \<open>[0, 1)\<close>, with such an increment: either the
  sum is 1 or more, or it is a number below 1 that is greater than the value by
  \<open>2 ^ -24\<close> at least.
\<close>

lemma ADSR_attack_progress:
  assumes inc: "inc = PInf \<or> (\<exists>i. inc = Fin i \<and> 1 / 2 ^ 23 \<le> i)" and v: "0 \<le> v" "v < 1"
  shows "fge (add32 (Fin v) inc) (Fin 1) \<or>
    (\<exists>v'. add32 (Fin v) inc = Fin v' \<and> v + 1 / 2 ^ 24 \<le> v' \<and> v' < 1)"
proof -
  from inc consider "inc = PInf" | i where "inc = Fin i" "1 / 2 ^ 23 \<le> i"
    by blast
  then show ?thesis
  proof cases
    case 1
    then show ?thesis
      by (simp add: add32_def fge_def)
  next
    case 2
    have "0 \<le> v + i"
      using v 2 by simp
    then show ?thesis
    proof (cases rule: round32_nonneg_cases)
      case 1
      then show ?thesis
        by (simp add: 2 fge_def)
    next
      case r: 2
      define y where "y = rnd 24 149 (v + i)"
      show ?thesis
      proof (cases "1 \<le> y")
        case True
        then show ?thesis
          by (simp add: 2 r y_def fge_def)
      next
        case False
        have "v + i < 2"
        proof (rule ccontr)
          assume "\<not> v + i < 2"
          then have "rnd 24 149 2 \<le> rnd 24 149 (v + i)"
            by (intro rnd_mono) simp_all
          moreover have "rnd 24 149 2 = 2"
            using rnd_int [of 2 24 149] by simp
          ultimately show False
            using False by (simp add: y_def)
        qed
        then have "\<bar>v + i\<bar> < 2"
          using \<open>0 \<le> v + i\<close> by simp
        then have "\<bar>y - (v + i)\<bar> \<le> 1 / 2 ^ 24"
          unfolding y_def by (rule rnd_error_2)
        moreover have "(1 / 2 ^ 23 :: real) = 1 / 2 ^ 24 + 1 / 2 ^ 24"
          by simp
        ultimately have "v + 1 / 2 ^ 24 \<le> y"
          using 2(2) by linarith
        with False show ?thesis
          by (simp add: 2 r y_def [symmetric])
      qed
    qed
  qed
qed

text \<open>
  The runs of a note-on from rest followed by empty events. After \<open>m\<close> empty events
  either the envelope has gone to Decay at the value 1, after rising at every call, or it
  is in Attack at a value of \<open>(m + 1) / 2 ^ 24\<close> at least, after rising at every call.
\<close>

lemma ADSR_attack_run:
  assumes e: "is_note_on e" and a: "0 < a" "a \<le> 190000"
  shows
    "(\<exists>K\<le>m.
        ADSR_run (e # replicate K MIDIEvent_empty) (Fin a) decay sustain release ADSR_init =
          \<lparr>ADSR_state = Decay, ADSR_value = Fin 1, ADSR_note = MIDIEvent_data1 e\<rparr> \<and>
        (\<forall>j<K.
           ADSR_state (ADSR_run (e # replicate j MIDIEvent_empty) (Fin a) decay sustain release
             ADSR_init) = Attack \<and>
           flt (ADSR_value (ADSR_run (e # replicate j MIDIEvent_empty) (Fin a) decay sustain
                 release ADSR_init))
               (ADSR_value (ADSR_run (e # replicate (Suc j) MIDIEvent_empty) (Fin a) decay
                 sustain release ADSR_init)))) \<or>
     (\<exists>v.
        ADSR_run (e # replicate m MIDIEvent_empty) (Fin a) decay sustain release ADSR_init =
          \<lparr>ADSR_state = Attack, ADSR_value = Fin v, ADSR_note = MIDIEvent_data1 e\<rparr> \<and>
        real (Suc m) / 2 ^ 24 \<le> v \<and> v < 1 \<and>
        (\<forall>j<m.
           ADSR_state (ADSR_run (e # replicate j MIDIEvent_empty) (Fin a) decay sustain release
             ADSR_init) = Attack \<and>
           flt (ADSR_value (ADSR_run (e # replicate j MIDIEvent_empty) (Fin a) decay sustain
                 release ADSR_init))
               (ADSR_value (ADSR_run (e # replicate (Suc j) MIDIEvent_empty) (Fin a) decay
                 sustain release ADSR_init))))"
proof -
  define R where
    "R j = ADSR_run (e # replicate j MIDIEvent_empty) (Fin a) decay sustain release ADSR_init"
    for j
  define n where "n = MIDIEvent_data1 e"
  define inc where "inc = mul32 (div32 (Fin 1000) (Fin a)) DT32"
  have inc: "inc = PInf \<or> (\<exists>i. inc = Fin i \<and> 1 / 2 ^ 23 \<le> i)"
    unfolding inc_def using a by (rule ADSR_increment_range)
  have step: "R (Suc j) =
      (if fge (add32 (Fin v) inc) (Fin 1)
       then \<lparr>ADSR_state = Decay, ADSR_value = Fin 1, ADSR_note = n\<rparr>
       else \<lparr>ADSR_state = Attack, ADSR_value = add32 (Fin v) inc, ADSR_note = n\<rparr>)"
    if "R j = \<lparr>ADSR_state = Attack, ADSR_value = Fin v, ADSR_note = n\<rparr>" for j v
    unfolding R_def ADSR_run_Suc unfolding R_def [symmetric] that inc_def
    by (rule ADSR_attack_step)
  have first: "R 0 =
      (if fge (add32 (Fin 0) inc) (Fin 1)
       then \<lparr>ADSR_state = Decay, ADSR_value = Fin 1, ADSR_note = n\<rparr>
       else \<lparr>ADSR_state = Attack, ADSR_value = add32 (Fin 0) inc, ADSR_note = n\<rparr>)"
    unfolding R_def ADSR_first_call [OF e] inc_def n_def
    by (rule ADSR_attack_step)
  define rising where
    "rising k \<longleftrightarrow>
       (\<forall>j<k. ADSR_state (R j) = Attack \<and> flt (ADSR_value (R j)) (ADSR_value (R (Suc j))))"
    for k
  have "(\<exists>K\<le>m. R K = \<lparr>ADSR_state = Decay, ADSR_value = Fin 1, ADSR_note = n\<rparr> \<and> rising K) \<or>
     (\<exists>v. R m = \<lparr>ADSR_state = Attack, ADSR_value = Fin v, ADSR_note = n\<rparr> \<and>
        real (Suc m) / 2 ^ 24 \<le> v \<and> v < 1 \<and> rising m)"
  proof (induction m)
    case 0
    have r0: "rising 0"
      by (simp add: rising_def)
    show ?case
    proof (cases "fge (add32 (Fin 0) inc) (Fin 1)")
      case True
      then show ?thesis
        using r0 by (simp add: first)
    next
      case False
      with ADSR_attack_progress [OF inc, of 0]
      obtain v' where "add32 (Fin 0) inc = Fin v'" "1 / 2 ^ 24 \<le> v'" "v' < 1"
        by auto
      with False show ?thesis
        using r0 by (simp add: first)
    qed
  next
    case (Suc m)
    from Suc.IH show ?case
    proof (elim disjE exE conjE)
      fix K
      assume "K \<le> m" "R K = \<lparr>ADSR_state = Decay, ADSR_value = Fin 1, ADSR_note = n\<rparr>" "rising K"
      then show ?thesis
        by (intro disjI1 exI [of _ K]) simp
    next
      fix v
      assume Rm: "R m = \<lparr>ADSR_state = Attack, ADSR_value = Fin v, ADSR_note = n\<rparr>"
        and v: "real (Suc m) / 2 ^ 24 \<le> v" "v < 1" and r: "rising m"
      have "0 \<le> v"
        using v(1) by (rule order_trans [rotated]) simp
      note progress = ADSR_attack_progress [OF inc this v(2)]
      show ?thesis
      proof (cases "fge (add32 (Fin v) inc) (Fin 1)")
        case True
        then have RS: "R (Suc m) = \<lparr>ADSR_state = Decay, ADSR_value = Fin 1, ADSR_note = n\<rparr>"
          by (simp add: step [OF Rm])
        have "rising (Suc m)"
          using r v(2) by (auto simp: rising_def less_Suc_eq Rm RS)
        with RS show ?thesis
          by (intro disjI1 exI [of _ "Suc m"]) simp
      next
        case False
        with progress obtain v' where
          v': "add32 (Fin v) inc = Fin v'" "v + 1 / 2 ^ 24 \<le> v'" "v' < 1"
          by auto
        with False have
          RS: "R (Suc m) = \<lparr>ADSR_state = Attack, ADSR_value = Fin v', ADSR_note = n\<rparr>"
          by (simp add: step [OF Rm])
        have "(0 :: real) < 1 / 2 ^ 24"
          by simp
        with v'(2) have "v < v'"
          by linarith
        then have "rising (Suc m)"
          using r by (auto simp: rising_def less_Suc_eq Rm RS)
        moreover have "real (Suc (Suc m)) / 2 ^ 24 = real (Suc m) / 2 ^ 24 + 1 / 2 ^ 24"
          by (simp add: add_divide_distrib)
        with v(1) v'(2) have "real (Suc (Suc m)) / 2 ^ 24 \<le> v'"
          by linarith
        ultimately show ?thesis
          using RS v'(3) by (intro disjI2 exI [of _ v']) simp
      qed
    qed
  qed
  then show ?thesis
    unfolding rising_def R_def n_def .
qed

lemma ADSR_attack_reaches:
  assumes e: "is_note_on e" and a: "0 < a" "a \<le> 190000"
  shows
    "\<exists>K\<le>2 ^ 24.
        ADSR_run (e # replicate K MIDIEvent_empty) (Fin a) decay sustain release ADSR_init =
          \<lparr>ADSR_state = Decay, ADSR_value = Fin 1, ADSR_note = MIDIEvent_data1 e\<rparr> \<and>
        (\<forall>j<K.
           ADSR_state (ADSR_run (e # replicate j MIDIEvent_empty) (Fin a) decay sustain release
             ADSR_init) = Attack \<and>
           flt (ADSR_value (ADSR_run (e # replicate j MIDIEvent_empty) (Fin a) decay sustain
                 release ADSR_init))
               (ADSR_value (ADSR_run (e # replicate (Suc j) MIDIEvent_empty) (Fin a) decay
                 sustain release ADSR_init)))"
proof -
  have "\<not> (\<exists>v. real (Suc (2 ^ 24)) / 2 ^ 24 \<le> v \<and> v < 1)"
    by (simp add: not_less)
  with ADSR_attack_run [OF assms, of "2 ^ 24" decay sustain release] show ?thesis
    by blast
qed

lemma ADSR_first_rise:
  assumes e: "is_note_on e" and a: "0 < a" "a \<le> 190000"
  shows "flt (Fin 0)
    (ADSR_value (ADSR_run (e # replicate 0 MIDIEvent_empty) (Fin a) decay sustain release
       ADSR_init))"
proof -
  define inc where "inc = mul32 (div32 (Fin 1000) (Fin a)) DT32"
  have inc: "inc = PInf \<or> (\<exists>i. inc = Fin i \<and> 1 / 2 ^ 23 \<le> i)"
    unfolding inc_def using a by (rule ADSR_increment_range)
  show ?thesis
  proof (cases "fge (add32 (Fin 0) inc) (Fin 1)")
    case True
    then show ?thesis
      unfolding ADSR_first_call [OF e] ADSR_attack_step inc_def [symmetric] by simp
  next
    case False
    with ADSR_attack_progress [OF inc, of 0]
    obtain v' where v': "add32 (Fin 0) inc = Fin v'" "1 / 2 ^ 24 \<le> v'" "v' < 1"
      by auto
    have "(0 :: real) < 1 / 2 ^ 24"
      by simp
    with v'(2) have "0 < v'"
      by linarith
    with False v' show ?thesis
      unfolding ADSR_first_call [OF e] ADSR_attack_step inc_def [symmetric] by simp
  qed
qed

text \<open>The attack of 1/16 millisecond: the increment, and the three calls it takes.\<close>

lemma ADSR_increment_sixteenth:
  "mul32 (div32 (Fin 1000) (Fin (1 / 16))) DT32 = Fin (12173943 / 33554432)"
proof -
  have "mul32 (Fin 16000) (Fin (6233059 / 274877906944)) = Fin (12173943 / 33554432)"
    using round32_normal [of 124 "16000 * (6233059 / 274877906944)"]
    by (simp add: round_even_def)
  then show ?thesis
    by (simp add: DT32_eq)
qed

lemma ADSR_sixteenth_steps:
  "ADSR_step (Fin (1 / 16)) decay sustain release
     \<lparr>ADSR_state = Attack, ADSR_value = Fin 0, ADSR_note = k\<rparr> =
   \<lparr>ADSR_state = Attack, ADSR_value = Fin (12173943 / 33554432), ADSR_note = k\<rparr>"
  "ADSR_step (Fin (1 / 16)) decay sustain release
     \<lparr>ADSR_state = Attack, ADSR_value = Fin (12173943 / 33554432), ADSR_note = k\<rparr> =
   \<lparr>ADSR_state = Attack, ADSR_value = Fin (12173943 / 16777216), ADSR_note = k\<rparr>"
  "ADSR_step (Fin (1 / 16)) decay sustain release
     \<lparr>ADSR_state = Attack, ADSR_value = Fin (12173943 / 16777216), ADSR_note = k\<rparr> =
   \<lparr>ADSR_state = Decay, ADSR_value = Fin 1, ADSR_note = k\<rparr>"
proof -
  have a: "round32 (12173943 / 33554432) = Fin (12173943 / 33554432)"
    using round32_exact [of 12173943 25] by simp
  have b: "round32 (12173943 / 16777216) = Fin (12173943 / 16777216)"
    using round32_exact [of 12173943 24] by simp
  have c: "round32 (36521829 / 33554432) = Fin (9130457 / 8388608)"
    using round32_normal [of 126 "36521829 / 33554432"]
    by (simp add: round_even_def)
  show "ADSR_step (Fin (1 / 16)) decay sustain release
     \<lparr>ADSR_state = Attack, ADSR_value = Fin 0, ADSR_note = k\<rparr> =
   \<lparr>ADSR_state = Attack, ADSR_value = Fin (12173943 / 33554432), ADSR_note = k\<rparr>"
    unfolding ADSR_attack_step ADSR_increment_sixteenth by (simp add: a fge_def)
  show "ADSR_step (Fin (1 / 16)) decay sustain release
     \<lparr>ADSR_state = Attack, ADSR_value = Fin (12173943 / 33554432), ADSR_note = k\<rparr> =
   \<lparr>ADSR_state = Attack, ADSR_value = Fin (12173943 / 16777216), ADSR_note = k\<rparr>"
    unfolding ADSR_attack_step ADSR_increment_sixteenth by (simp add: b fge_def)
  show "ADSR_step (Fin (1 / 16)) decay sustain release
     \<lparr>ADSR_state = Attack, ADSR_value = Fin (12173943 / 16777216), ADSR_note = k\<rparr> =
   \<lparr>ADSR_state = Decay, ADSR_value = Fin 1, ADSR_note = k\<rparr>"
    unfolding ADSR_attack_step ADSR_increment_sixteenth by (simp add: c fge_def)
qed

lemma literal_hundredth: "rnd 24 149 (1 / 100) < 1"
proof -
  have "rnd 24 149 (1 / 100) \<le> rnd 24 149 (1 / 2)"
    by (intro rnd_mono) simp_all
  also have "\<dots> = 1 / 2"
    using rnd_half_integer [of 1] by simp
  finally show ?thesis
    by simp
qed

lemma ADSR_decay_instant:
  "ADSR_step attack (Fin 0) (Fin 0) release
     \<lparr>ADSR_state = Decay, ADSR_value = Fin 1, ADSR_note = k\<rparr> =
   \<lparr>ADSR_state = Decay, ADSR_value = Fin 0, ADSR_note = k\<rparr>"
proof -
  have "round32 (1000 * (6233059 / 274877906944)) = Fin (12173943 / 536870912)"
    using round32_normal [of 120 "1000 * (6233059 / 274877906944)"]
    by (simp add: round_even_def)
  then have "div32 (mul32 DT32 (Fin 1000)) (Fin 0) = PInf"
    by (simp add: DT32_eq div32_def signed_inf_def mult.commute)
  then show ?thesis
    by (simp add: ADSR_step_def pow32_def literal_hundredth)
qed

lemma ADSR_attack_inf:
  "ADSR_step PInf decay sustain release
     \<lparr>ADSR_state = Attack, ADSR_value = Fin 0, ADSR_note = k\<rparr> =
   \<lparr>ADSR_state = Attack, ADSR_value = Fin 0, ADSR_note = k\<rparr>"
  by (simp add: ADSR_step_def DT32_eq div32_def fge_def)

text \<open>
  The attack of 1000 seconds: the increment is less than half the distance between the
  numbers of binary32 from 1/2 on, so that the value does not get past 1/2.
\<close>

lemma ADSR_increment_long:
  "mul32 (div32 (Fin 1000) (Fin 1000000)) DT32 = Fin (12765305 / 562949953421312)"
proof -
  have "div32 (Fin 1000) (Fin 1000000) = Fin (8589935 / 8589934592)"
    using round32_normal [of 116 "1000 / 1000000"] by (simp add: round_even_def)
  moreover have "mul32 (Fin (8589935 / 8589934592)) (Fin (6233059 / 274877906944)) =
      Fin (12765305 / 562949953421312)"
    using round32_normal [of 100 "8589935 / 8589934592 * (6233059 / 274877906944)"]
    by (simp add: round_even_def)
  ultimately show ?thesis
    by (simp add: DT32_eq)
qed

lemma ADSR_long_step:
  assumes "0 \<le> v" and "v \<le> 1 / 2"
  shows "\<exists>v'. ADSR_step (Fin 1000000) decay sustain release
       \<lparr>ADSR_state = Attack, ADSR_value = Fin v, ADSR_note = k\<rparr> =
     \<lparr>ADSR_state = Attack, ADSR_value = Fin v', ADSR_note = k\<rparr> \<and> 0 \<le> v' \<and> v' \<le> 1 / 2"
proof -
  define i :: real where "i = 12765305 / 562949953421312"
  define v' where "v' = rnd 24 149 (v + i)"
  have "rnd 24 149 (1 / 2 + i) = 1 / 2"
    unfolding i_def
    using rnd_normal [of 24 125 "1 / 2 + 12765305 / 562949953421312" 149]
    by (simp add: round_even_def)
  moreover have "rnd 24 149 (v + i) \<le> rnd 24 149 (1 / 2 + i)"
    using assms by (intro rnd_mono) simp_all
  ultimately have le: "v' \<le> 1 / 2"
    by (simp add: v'_def)
  have ge: "0 \<le> v'"
    unfolding v'_def using assms by (intro rnd_nonneg) (simp add: i_def)
  have "\<bar>v + i\<bar> < 2"
    using assms by (simp add: i_def)
  then have "round32 (v + i) = Fin v'"
    unfolding v'_def by (rule round32_small)
  then have "ADSR_step (Fin 1000000) decay sustain release
       \<lparr>ADSR_state = Attack, ADSR_value = Fin v, ADSR_note = k\<rparr> =
     \<lparr>ADSR_state = Attack, ADSR_value = Fin v', ADSR_note = k\<rparr>"
    unfolding ADSR_attack_step ADSR_increment_long using le by (simp add: i_def fge_def)
  with ge le show ?thesis
    by blast
qed

lemma ADSR_long_run:
  assumes "is_note_on e"
  shows "\<exists>v. ADSR_run (e # replicate n MIDIEvent_empty) (Fin 1000000) decay sustain release
       ADSR_init =
     \<lparr>ADSR_state = Attack, ADSR_value = Fin v, ADSR_note = MIDIEvent_data1 e\<rparr> \<and>
     0 \<le> v \<and> v \<le> 1 / 2"
proof (induction n)
  case 0
  show ?case
    unfolding ADSR_first_call [OF assms] by (rule ADSR_long_step) simp_all
next
  case (Suc n)
  then obtain v where run: "ADSR_run (e # replicate n MIDIEvent_empty) (Fin 1000000) decay
       sustain release ADSR_init =
     \<lparr>ADSR_state = Attack, ADSR_value = Fin v, ADSR_note = MIDIEvent_data1 e\<rparr>"
    and v: "0 \<le> v" "v \<le> 1 / 2"
    by blast
  show ?case
    unfolding ADSR_run_Suc run using v by (rule ADSR_long_step)
qed

text \<open>
  C6, as amended. From its initial state (Sustain, value 0, no note held) the envelope
  returns 0 and stays as it is on every empty event. A note-on with no note held sets the
  state to Attack. For an attack parameter \<open>a\<close> with \<open>0 < a \<le> 190000\<close> (milliseconds), the
  call with the note-on returns a value above 0, and on the empty events that follow the
  state is Attack and each call returns more than the call before, up to a call (the
  \<open>K\<close>th, no later than the \<open>2 ^ 24\<close>th) that returns exactly 1 and sets the state to
  Decay. A note-on that arrives while a note number other than 0 is held changes the held
  note only: state and value come out as for an empty event.
\<close>

theorem ADSR_envelope:
  "ADSR_process MIDIEvent_empty attack decay sustain release ADSR_init = (Fin 0, ADSR_init) \<and>
   ADSR_run (replicate n MIDIEvent_empty) attack decay sustain release ADSR_init = ADSR_init \<and>
   (is_note_on e \<and> ADSR_note s = 0 \<longrightarrow> ADSR_state (ADSR_event e s) = Attack) \<and>
   (is_note_on e \<and> 0 < a \<and> a \<le> 190000 \<longrightarrow>
      flt (Fin 0)
        (ADSR_value (ADSR_run (e # replicate 0 MIDIEvent_empty) (Fin a) decay sustain release
           ADSR_init)) \<and>
      (\<exists>K\<le>2 ^ 24.
         ADSR_run (e # replicate K MIDIEvent_empty) (Fin a) decay sustain release ADSR_init =
           \<lparr>ADSR_state = Decay, ADSR_value = Fin 1, ADSR_note = MIDIEvent_data1 e\<rparr> \<and>
         (\<forall>j<K.
            ADSR_state (ADSR_run (e # replicate j MIDIEvent_empty) (Fin a) decay sustain release
              ADSR_init) = Attack \<and>
            flt (ADSR_value (ADSR_run (e # replicate j MIDIEvent_empty) (Fin a) decay sustain
                  release ADSR_init))
                (ADSR_value (ADSR_run (e # replicate (Suc j) MIDIEvent_empty) (Fin a) decay
                  sustain release ADSR_init))))) \<and>
   (is_note_on e \<and> ADSR_note s \<noteq> 0 \<longrightarrow>
      ADSR_state (ADSR_event e s) = ADSR_state s \<and>
      snd (ADSR_process e attack decay sustain release s) =
        (snd (ADSR_process MIDIEvent_empty attack decay sustain release s))
          \<lparr>ADSR_note := MIDIEvent_data1 e\<rparr> \<and>
      fst (ADSR_process e attack decay sustain release s) =
        fst (ADSR_process MIDIEvent_empty attack decay sustain release s))"
proof -
  have rest: "ADSR_process MIDIEvent_empty attack decay sustain release ADSR_init = (Fin 0, ADSR_init)"
    "ADSR_run (replicate n MIDIEvent_empty) attack decay sustain release ADSR_init = ADSR_init"
    by (rule ADSR_rest, rule ADSR_run_rest)
  have on: "ADSR_state (ADSR_event e s) = Attack" if "is_note_on e" "ADSR_note s = 0"
    using that by (simp add: ADSR_event_def)
  have legato: "ADSR_state (ADSR_event e s) = ADSR_state s"
      "snd (ADSR_process e attack decay sustain release s) =
        (snd (ADSR_process MIDIEvent_empty attack decay sustain release s))
          \<lparr>ADSR_note := MIDIEvent_data1 e\<rparr>"
      "fst (ADSR_process e attack decay sustain release s) =
        fst (ADSR_process MIDIEvent_empty attack decay sustain release s)"
    if "is_note_on e" "ADSR_note s \<noteq> 0"
    using that
    by (simp_all add: ADSR_process_def ADSR_legato ADSR_event_empty ADSR_step_note Let_def)
  from rest on legato
    ADSR_first_rise [of e a decay sustain release]
    ADSR_attack_reaches [of e a decay sustain release]
  show ?thesis by blast
qed

theorem ADSR_envelope_witness:
  "is_note_on (create_note_on 60 100 0) \<and> ADSR_note ADSR_init = 0 \<and>
   ADSR_state (ADSR_event (create_note_on 60 100 0) ADSR_init) = Attack \<and>
   (0 :: real) < 1 / 16 \<and> (1 / 16 :: real) \<le> 190000 \<and>
   (\<exists>K\<le>2 ^ 24.
      ADSR_run (create_note_on 60 100 0 # replicate K MIDIEvent_empty)
          (Fin (1 / 16)) (Fin 1) (Fin 1) (Fin 1) ADSR_init =
        \<lparr>ADSR_state = Decay, ADSR_value = Fin 1, ADSR_note = 60\<rparr>) \<and>
   ADSR_run (create_note_on 60 100 0 # replicate 2 MIDIEvent_empty)
       (Fin (1 / 16)) (Fin 1) (Fin 1) (Fin 1) ADSR_init =
     \<lparr>ADSR_state = Decay, ADSR_value = Fin 1, ADSR_note = 60\<rparr> \<and>
   ADSR_note \<lparr>ADSR_state = Sustain, ADSR_value = Fin (1 / 2), ADSR_note = 60\<rparr> \<noteq> 0 \<and>
   ADSR_state (ADSR_event (create_note_on 62 100 0)
       \<lparr>ADSR_state = Sustain, ADSR_value = Fin (1 / 2), ADSR_note = 60\<rparr>) = Sustain"
proof -
  have run: "ADSR_run (create_note_on 60 100 0 # replicate 2 MIDIEvent_empty)
       (Fin (1 / 16)) (Fin 1) (Fin 1) (Fin 1) ADSR_init =
     \<lparr>ADSR_state = Decay, ADSR_value = Fin 1, ADSR_note = 60\<rparr>"
    by (simp add: numeral_2_eq_2 ADSR_process_def ADSR_event_note_on ADSR_event_empty
        note_on_kinds note_on_data1 ADSR_init_def ADSR_sixteenth_steps)
  from run
    ADSR_envelope [where e = "create_note_on 60 100 0" and s = ADSR_init and a = "1 / 16"
      and decay = "Fin 1" and sustain = "Fin 1" and release = "Fin 1"]
    ADSR_envelope [where e = "create_note_on 62 100 0"
      and s = "\<lparr>ADSR_state = Sustain, ADSR_value = Fin (1 / 2), ADSR_note = 60\<rparr>"
      and a = 1 and n = 0 and attack = "Fin 1" and decay = "Fin 1"
      and sustain = "Fin 1" and release = "Fin 1"]
  show ?thesis
    by (simp add: note_on_kinds note_on_data1 ADSR_init_def del: ADSR_run.simps) blast
qed

text \<open>
  C6 as stated fails in two places. An attack parameter greater than 0 does not make the
  value rise to 1. With an attack of 1000000 milliseconds the increment is less than half
  the distance between the numbers of binary32 from 1/2 on: the sum is rounded back to the
  value, which stays at 1/2 at most, the state Attack, for any number of calls. (The
  attack \<open>+\<infinity>\<close> gives the increment 0, and the value stays 0.) And the note number 0 is
  what \<^verbatim>\<open>note\<close> holds when no note is held, so a note-on that arrives while the note 0 is
  held (no note-off was sent) takes the envelope from Decay back to Attack: with the attack
  1/16, the decay 0 and the sustain level 0, the note-on of note 0 and three empty events
  leave it in Decay at the value 0, and the note-on of note 60 that follows leaves it in
  Attack.
\<close>

theorem ADSR_note_zero_counterexample:
  "flt (Fin 0) (Fin 1000000) \<and>
   (\<forall>n. ADSR_state (ADSR_run (create_note_on 60 100 0 # replicate n MIDIEvent_empty)
            (Fin 1000000) (Fin 1) (Fin 1) (Fin 1) ADSR_init) = Attack \<and>
        fle (ADSR_value (ADSR_run (create_note_on 60 100 0 # replicate n MIDIEvent_empty)
            (Fin 1000000) (Fin 1) (Fin 1) (Fin 1) ADSR_init)) (Fin (1 / 2))) \<and>
   ADSR_run [create_note_on 0 100 0, MIDIEvent_empty, MIDIEvent_empty, MIDIEvent_empty]
       (Fin (1 / 16)) (Fin 0) (Fin 0) (Fin 1) ADSR_init =
     \<lparr>ADSR_state = Decay, ADSR_value = Fin 0, ADSR_note = 0\<rparr> \<and>
   ADSR_run [create_note_on 0 100 0, MIDIEvent_empty, MIDIEvent_empty, MIDIEvent_empty,
             create_note_on 60 100 0]
       (Fin (1 / 16)) (Fin 0) (Fin 0) (Fin 1) ADSR_init =
     \<lparr>ADSR_state = Attack, ADSR_value = Fin (12173943 / 33554432), ADSR_note = 60\<rparr> \<and>
   flt (Fin 0) PInf \<and>
   ADSR_run [create_note_on 60 100 0, MIDIEvent_empty, MIDIEvent_empty]
       PInf (Fin 1) (Fin 1) (Fin 1) ADSR_init =
     \<lparr>ADSR_state = Attack, ADSR_value = Fin 0, ADSR_note = 60\<rparr>"
proof -
  have long: "ADSR_state (ADSR_run (create_note_on 60 100 0 # replicate n MIDIEvent_empty)
            (Fin 1000000) (Fin 1) (Fin 1) (Fin 1) ADSR_init) = Attack \<and>
        fle (ADSR_value (ADSR_run (create_note_on 60 100 0 # replicate n MIDIEvent_empty)
            (Fin 1000000) (Fin 1) (Fin 1) (Fin 1) ADSR_init)) (Fin (1 / 2))" for n
    using ADSR_long_run [OF note_on_kinds(1), of 60 100 n "Fin 1" "Fin 1" "Fin 1"]
    by (auto simp del: ADSR_run.simps)
  have a: "ADSR_run [create_note_on 0 100 0, MIDIEvent_empty, MIDIEvent_empty, MIDIEvent_empty]
       (Fin (1 / 16)) (Fin 0) (Fin 0) (Fin 1) ADSR_init =
     \<lparr>ADSR_state = Decay, ADSR_value = Fin 0, ADSR_note = 0\<rparr>"
    by (simp add: ADSR_process_def ADSR_event_note_on ADSR_event_empty note_on_kinds
        note_on_data1 ADSR_init_def ADSR_sixteenth_steps ADSR_decay_instant)
  have b: "ADSR_run [create_note_on 0 100 0, MIDIEvent_empty, MIDIEvent_empty, MIDIEvent_empty,
             create_note_on 60 100 0]
       (Fin (1 / 16)) (Fin 0) (Fin 0) (Fin 1) ADSR_init =
     \<lparr>ADSR_state = Attack, ADSR_value = Fin (12173943 / 33554432), ADSR_note = 60\<rparr>"
    by (simp add: ADSR_process_def ADSR_event_note_on ADSR_event_empty note_on_kinds
        note_on_data1 ADSR_init_def ADSR_sixteenth_steps ADSR_decay_instant)
  have c: "ADSR_run [create_note_on 60 100 0, MIDIEvent_empty, MIDIEvent_empty]
       PInf (Fin 1) (Fin 1) (Fin 1) ADSR_init =
     \<lparr>ADSR_state = Attack, ADSR_value = Fin 0, ADSR_note = 60\<rparr>"
    by (simp add: ADSR_process_def ADSR_event_note_on ADSR_event_empty note_on_kinds
        note_on_data1 ADSR_init_def ADSR_attack_inf)
  from long a b c show ?thesis by simp
qed

subsection \<open>The reverb\<close>


lemma bounded_by_Fin_iff [simp]: "bounded_by M (Fin r) \<longleftrightarrow> \<bar>r\<bar> \<le> M"
  by (auto simp: bounded_by_def)







































end
